theory Spec2Isabelle
  imports Complex_Main "HOL-Library.Multiset"
begin

section \<open>The quiz data model (types/quiz.ts)\<close>

text \<open>
  \<^verbatim>\<open>export type Difficulty = 'easy' | 'medium' | 'hard';\<close>
\<close>

datatype Difficulty = easy | medium | hard

text \<open>
  \<^verbatim>\<open>interface QuizQuestion { id; question; options; answer; category?; difficulty?; type? }\<close>
  The three optional fields are \<open>string option\<close>. Field names that would clash with
  another record of this file or with a HOL constant carry a prefix.
\<close>

record QuizQuestion =
  qid :: string
  question :: string
  options :: "string list"
  answer :: string
  category :: "string option"
  qdifficulty :: "string option"
  qtype :: "string option"

text \<open>
  An element of \<^verbatim>\<open>userAnswers: (string | null)[]\<close>. The declared element type is
  \<open>Null\<close> or \<open>Answer a\<close>. A JavaScript array written beyond its length also has
  holes, and spreading an array with holes yields \<^verbatim>\<open>undefined\<close> elements; both
  are kept so that the reducer's array operations can be written out in full.
\<close>

datatype answer_slot = Hole | Undefined | Null | Answer string

record QuizState =
  questions :: "QuizQuestion list"
  currentQuestionIndex :: int
  userAnswers :: "answer_slot list"
  score :: int
  isCompleted :: bool
  difficulty :: Difficulty
  timeLeft :: int
  isLoading :: bool
  error :: "string option"

datatype QuizAction =
    START_QUIZ Difficulty
  | SET_QUESTIONS "QuizQuestion list"
  | SELECT_ANSWER string
  | NEXT_QUESTION
  | PREVIOUS_QUESTION
  | FINISH_QUIZ
  | RESET_QUIZ
  | SET_LOADING bool
  | SET_ERROR "string option"
  | DECREMENT_TIMER
  | RESET_TIMER

section \<open>JavaScript array operations used by the reducer\<close>

text \<open>\<^verbatim>\<open>[...array]\<close>: a dense copy; a hole is read as \<^verbatim>\<open>undefined\<close>.\<close>

definition spread :: "answer_slot list \<Rightarrow> answer_slot list" where
  "spread xs = map (\<lambda>x. if x = Hole then Undefined else x) xs"

text \<open>
  \<^verbatim>\<open>array[i] = v\<close> for an integer \<open>i\<close>. Inside the array the element is replaced.
  At or beyond the length the array grows to \<open>i + 1\<close> elements, the new positions before
  \<open>i\<close> being holes. A negative \<open>i\<close> names an ordinary property, not an element: the
  elements and the length stay as they are.
\<close>

definition array_set :: "answer_slot list \<Rightarrow> int \<Rightarrow> answer_slot \<Rightarrow> answer_slot list" where
  "array_set xs i v =
     (if i < 0 then xs
      else if nat i < length xs then xs[nat i := v]
      else xs @ replicate (nat i - length xs) Hole @ [v])"

text \<open>
  \<^verbatim>\<open>state.questions[index]?.answer\<close>: the answer text of the question at \<open>index\<close>,
  \<^verbatim>\<open>undefined\<close> (here \<open>None\<close>) when there is no such question.
\<close>

definition optional_answer :: "QuizQuestion list \<Rightarrow> nat \<Rightarrow> string option" where
  "optional_answer qs index = (if index < length qs then Some (answer (qs ! index)) else None)"

text \<open>
  \<^verbatim>\<open>answer === state.questions[index]?.answer\<close>: strict equality of an array element
  with a string or \<^verbatim>\<open>undefined\<close>. The callback is never called on a hole.
\<close>

fun strict_equals :: "answer_slot \<Rightarrow> string option \<Rightarrow> bool" where
  "strict_equals (Answer a) (Some b) = (a = b)"
| "strict_equals Undefined None = True"
| "strict_equals _ _ = False"

text \<open>
  \<^verbatim>\<open>
  state.userAnswers.reduce((acc, answer, index) => {
    return answer === state.questions[index]?.answer ? acc + 1 : acc;
  }, 0)
  \<close>
  \<open>reduce\<close> visits the elements in index order and skips holes.
\<close>

fun reduce_score :: "QuizQuestion list \<Rightarrow> answer_slot list \<Rightarrow> nat \<Rightarrow> int \<Rightarrow> int" where
  "reduce_score qs [] index acc = acc"
| "reduce_score qs (a # as) index acc =
     reduce_score qs as (Suc index)
       (if a = Hole then acc
        else if strict_equals a (optional_answer qs index) then acc + 1 else acc)"

section \<open>The reducer (context/QuizContext.tsx)\<close>

definition initialState :: QuizState where
  "initialState =
     \<lparr> questions = [],
       currentQuestionIndex = 0,
       userAnswers = [],
       score = 0,
       isCompleted = False,
       difficulty = easy,
       timeLeft = 30,
       isLoading = False,
       error = None \<rparr>"

fun quizReducer :: "QuizState \<Rightarrow> QuizAction \<Rightarrow> QuizState" where
  "quizReducer state (START_QUIZ payload) =
     initialState \<lparr> difficulty := payload, isLoading := True \<rparr>"
| "quizReducer state (SET_QUESTIONS payload) =
     state \<lparr> questions := payload,
             userAnswers := replicate (length payload) Null,
             isLoading := False,
             error := None \<rparr>"
| "quizReducer state (SELECT_ANSWER payload) =
     state \<lparr> userAnswers :=
               array_set (spread (userAnswers state)) (currentQuestionIndex state) (Answer payload) \<rparr>"
| "quizReducer state NEXT_QUESTION =
     state \<lparr> currentQuestionIndex :=
               min (currentQuestionIndex state + 1) (int (length (questions state)) - 1),
             timeLeft := 30 \<rparr>"
| "quizReducer state PREVIOUS_QUESTION =
     state \<lparr> currentQuestionIndex := max (currentQuestionIndex state - 1) 0,
             timeLeft := 30 \<rparr>"
| "quizReducer state FINISH_QUIZ =
     state \<lparr> score := reduce_score (questions state) (userAnswers state) 0 0,
             isCompleted := True \<rparr>"
| "quizReducer state RESET_QUIZ = initialState"
| "quizReducer state (SET_LOADING payload) = state \<lparr> isLoading := payload \<rparr>"
| "quizReducer state (SET_ERROR payload) = state \<lparr> error := payload, isLoading := False \<rparr>"
| "quizReducer state DECREMENT_TIMER = state \<lparr> timeLeft := max (timeLeft state - 1) 0 \<rparr>"
| "quizReducer state RESET_TIMER = state \<lparr> timeLeft := 30 \<rparr>"

text \<open>The session states of the quiz, read off the state record.\<close>

definition in_progress :: "QuizState \<Rightarrow> bool" where
  "in_progress s \<longleftrightarrow>
     \<not> isLoading s \<and> \<not> isCompleted s \<and> questions s \<noteq> [] \<and>
     0 \<le> currentQuestionIndex s \<and> currentQuestionIndex s < int (length (questions s))"

text \<open>A question and two states used to evaluate the reducer on concrete inputs.\<close>

definition sample_question :: "string \<Rightarrow> string \<Rightarrow> QuizQuestion" where
  "sample_question i a =
     \<lparr> qid = ''question-'' @ i, question = ''Q'' @ i, options = [a, ''other''], answer = a,
       category = None, qdifficulty = Some ''easy'', qtype = Some ''multiple'' \<rparr>"

definition ten_questions :: "QuizQuestion list" where
  "ten_questions =
     [sample_question ''0'' ''a0'', sample_question ''1'' ''a1'', sample_question ''2'' ''a2'',
      sample_question ''3'' ''a3'', sample_question ''4'' ''a4'', sample_question ''5'' ''a5'',
      sample_question ''6'' ''a6'', sample_question ''7'' ''a7'', sample_question ''8'' ''a8'',
      sample_question ''9'' ''a9'']"

definition answered_state :: QuizState where
  "answered_state =
     \<lparr> questions = [sample_question ''0'' ''a0'', sample_question ''1'' ''a1'',
                     sample_question ''2'' ''a2''],
       currentQuestionIndex = 1,
       userAnswers = [Answer ''a0'', Null, Answer ''wrong''],
       score = 0,
       isCompleted = False,
       difficulty = easy,
       timeLeft = 12,
       isLoading = False,
       error = None \<rparr>"

section \<open>JavaScript values, errors and outcomes\<close>

text \<open>
  What a \<^verbatim>\<open>throw\<close> or a rejected promise carries. An \<open>Error\<close> carries the message the
  source gives it; for a \<^verbatim>\<open>TypeError\<close> or \<^verbatim>\<open>SyntaxError\<close> of the platform, whose
  wording differs between engines, the text names the expression that throws. A platform
  call that can throw returns \<open>js_error + 'a\<close>, \<open>Inl\<close> being the exception.
\<close>

datatype js_error = Error string | TypeError string | SyntaxError string

text \<open>
  How a function of the source ends: it returns, it throws, or it arrives at a value that
  this model does not represent, where the model says nothing about what the code does.
\<close>

datatype 'a outcome = Returns 'a | Throws js_error | Outside_model

text \<open>
  The values that \<^verbatim>\<open>JSON.parse\<close> and \<^verbatim>\<open>response.json()\<close> produce. An object is the
  list of its members in property order, each key once. A number is an integer that a
  double holds exactly (\<open>safe_integer\<close>); on these, subtraction has the sign of the exact
  difference and \<^verbatim>\<open>JSON.stringify\<close> prints the decimal digits. Other numbers, and
  strings with a code unit above \<^verbatim>\<open>\u00FF\<close>, are outside the model.
\<close>

datatype js_value =
    VNull
  | VBool bool
  | VNumber int
  | VString string
  | VArray "js_value list"
  | VObject "(string \<times> js_value) list"

definition safe_integer :: "int \<Rightarrow> bool" where
  "safe_integer n \<longleftrightarrow> - 9007199254740991 \<le> n \<and> n \<le> 9007199254740991"

text \<open>
  \<^verbatim>\<open>value.key\<close> on a value that is not \<^verbatim>\<open>null\<close>, for the keys that the source reads
  (\<^verbatim>\<open>response_code\<close>, \<^verbatim>\<open>results\<close>, \<^verbatim>\<open>question\<close>, \<^verbatim>\<open>correct_answer\<close>,
  \<^verbatim>\<open>incorrect_answers\<close>, \<^verbatim>\<open>category\<close>, \<^verbatim>\<open>difficulty\<close>, \<^verbatim>\<open>type\<close>, \<^verbatim>\<open>score\<close>): no
  prototype defines one of them, so the read gives the member of an object and
  \<^verbatim>\<open>undefined\<close> (here \<open>None\<close>) on anything else.
\<close>

fun member :: "js_value \<Rightarrow> string \<Rightarrow> js_value option" where
  "member (VObject ms) key = map_of ms key"
| "member _ key = None"

section \<open>The question source (services/quizApi.ts)\<close>

text \<open>
  \<^verbatim>\<open>interface ApiQuestion\<close>: a record of the trivia service's answer, at its
  declared type.
\<close>

record ApiQuestion =
  api_question :: string
  correct_answer :: string
  incorrect_answers :: "string list"
  api_category :: string
  api_difficulty :: string
  api_type :: string

text \<open>
  The \<^verbatim>\<open>Response\<close> that \<^verbatim>\<open>fetch\<close> resolves to: its \<^verbatim>\<open>ok\<close> flag and the
  outcome of awaiting \<^verbatim>\<open>response.json()\<close>, which rejects when the body cannot be
  read as JSON and otherwise gives the value of the body, whatever its shape.
\<close>

record Response =
  ok :: bool
  json :: "js_error + js_value"

definition API_BASE_URL :: string where
  "API_BASE_URL = ''https://opentdb.com/api.php''"

text \<open>The text a \<open>Difficulty\<close> has inside a template literal.\<close>

fun difficulty_text :: "Difficulty \<Rightarrow> string" where
  "difficulty_text easy = ''easy''"
| "difficulty_text medium = ''medium''"
| "difficulty_text hard = ''hard''"

text \<open>The decimal text of an array index inside a template literal.\<close>

fun number_text :: "nat \<Rightarrow> string" where
  "number_text n =
     (if n < 10 then [char_of (48 + n)]
      else number_text (n div 10) @ [char_of (48 + n mod 10)])"

declare number_text.simps [simp del]

text \<open>
  \<^verbatim>\<open>
  const decodeHtmlEntities = (text) => {
    const textarea = document.createElement('textarea');
    textarea.innerHTML = text;
    return textarea.value;
  };
  \<close>
  The browser's HTML parser is the parameter \<open>textarea\<close>: the \<^verbatim>\<open>value\<close> a fresh
  textarea has once its \<^verbatim>\<open>innerHTML\<close> is set to the text.
\<close>

definition decodeHtmlEntities :: "(string \<Rightarrow> string) \<Rightarrow> string \<Rightarrow> string" where
  "decodeHtmlEntities textarea text = textarea text"

text \<open>
  \<^verbatim>\<open>
  const shuffled = [...array];
  for (let i = shuffled.length - 1; i > 0; i--) {
    const j = Math.floor(Math.random() * (i + 1));
    [shuffled[i], shuffled[j]] = [shuffled[j], shuffled[i]];
  }
  return shuffled;
  \<close>
  \<^verbatim>\<open>Math.random\<close> is the sequence \<open>random\<close> of the numbers it returns, read from
  position \<open>k\<close> on; the loop returns the array and the position it has reached. Every
  number that \<^verbatim>\<open>Math.random\<close> returns is at least 0 and below 1, which keeps \<open>j\<close>
  between 0 and \<open>i\<close>; the product is taken exactly.
\<close>

fun shuffle_loop :: "(nat \<Rightarrow> rat) \<Rightarrow> nat \<Rightarrow> nat \<Rightarrow> 'a list \<Rightarrow> 'a list \<times> nat" where
  "shuffle_loop random k 0 shuffled = (shuffled, k)"
| "shuffle_loop random k (Suc i') shuffled =
     (let i = Suc i';
          j = nat \<lfloor>random k * of_nat (i + 1)\<rfloor>
      in shuffle_loop random (Suc k) i' (shuffled[i := shuffled ! j, j := shuffled ! i]))"

definition shuffleArray :: "(nat \<Rightarrow> rat) \<Rightarrow> nat \<Rightarrow> 'a list \<Rightarrow> 'a list \<times> nat" where
  "shuffleArray random k array = shuffle_loop random k (length array - 1) array"

text \<open>
  The callback of \<^verbatim>\<open>data.results.map((apiQuestion, index) => ...)\<close>, with the position
  in the random sequence passed through.
\<close>

definition normalizeQuestion ::
  "(string \<Rightarrow> string) \<Rightarrow> (nat \<Rightarrow> rat) \<Rightarrow> nat \<Rightarrow> ApiQuestion \<Rightarrow> nat \<Rightarrow> QuizQuestion \<times> nat" where
  "normalizeQuestion textarea random k apiQuestion index =
     (let decodedQuestion = decodeHtmlEntities textarea (api_question apiQuestion);
          decodedCorrectAnswer = decodeHtmlEntities textarea (correct_answer apiQuestion);
          decodedIncorrectAnswers = map (decodeHtmlEntities textarea) (incorrect_answers apiQuestion);
          allOptions = decodedCorrectAnswer # decodedIncorrectAnswers;
          (shuffledOptions, k') = shuffleArray random k allOptions
      in (\<lparr> qid = ''question-'' @ number_text index,
             question = decodedQuestion,
             options = shuffledOptions,
             answer = decodedCorrectAnswer,
             category = Some (api_category apiQuestion),
             qdifficulty = Some (api_difficulty apiQuestion),
             qtype = Some (api_type apiQuestion) \<rparr>, k'))"

fun map_results ::
  "(string \<Rightarrow> string) \<Rightarrow> (nat \<Rightarrow> rat) \<Rightarrow> nat \<Rightarrow> nat \<Rightarrow> ApiQuestion list \<Rightarrow> QuizQuestion list" where
  "map_results textarea random k index [] = []"
| "map_results textarea random k index (apiQuestion # rest) =
     (let (q, k') = normalizeQuestion textarea random k apiQuestion index
      in q # map_results textarea random k' (Suc index) rest)"

text \<open>
  What the callback meets in one element of \<^verbatim>\<open>data.results\<close> before it shuffles. On
  \<^verbatim>\<open>null\<close>, reading \<^verbatim>\<open>apiQuestion.question\<close> throws a \<^verbatim>\<open>TypeError\<close>. With the
  question and the correct answer being strings, \<^verbatim>\<open>apiQuestion.incorrect_answers.map\<close>
  throws a \<^verbatim>\<open>TypeError\<close> unless \<^verbatim>\<open>incorrect_answers\<close> is an array. A record of the
  declared shape is read as an \<open>ApiQuestion\<close>. In the remaining shapes the callback
  converts values that are not strings to text; the model does not follow it there.
\<close>

fun strings_of :: "js_value list \<Rightarrow> string list option" where
  "strings_of [] = Some []"
| "strings_of (VString s # vs) = map_option ((#) s) (strings_of vs)"
| "strings_of (_ # vs) = None"

fun read_question :: "js_value \<Rightarrow> ApiQuestion outcome" where
  "read_question VNull = Throws (TypeError ''apiQuestion.question'')"
| "read_question apiQuestion =
     (case (member apiQuestion ''question'', member apiQuestion ''correct_answer'') of
        (Some (VString q), Some (VString c)) \<Rightarrow>
          (case member apiQuestion ''incorrect_answers'' of
             Some (VArray ws) \<Rightarrow>
               (case (strings_of ws, member apiQuestion ''category'',
                      member apiQuestion ''difficulty'', member apiQuestion ''type'') of
                  (Some ws', Some (VString cat), Some (VString d), Some (VString t)) \<Rightarrow>
                    Returns \<lparr> api_question = q, correct_answer = c, incorrect_answers = ws',
                              api_category = cat, api_difficulty = d, api_type = t \<rparr>
                | _ \<Rightarrow> Outside_model)
           | _ \<Rightarrow> Throws (TypeError ''apiQuestion.incorrect_answers.map''))
      | _ \<Rightarrow> Outside_model)"

text \<open>
  \<^verbatim>\<open>map\<close> calls the callback on the elements in order and stops at the first call that
  throws, with no result; so the elements are read up to the first that is not of the
  declared shape.
\<close>

fun read_results :: "js_value list \<Rightarrow> ApiQuestion list outcome" where
  "read_results [] = Returns []"
| "read_results (v # vs) =
     (case read_question v of
        Returns r \<Rightarrow>
          (case read_results vs of
             Returns rs \<Rightarrow> Returns (r # rs)
           | Throws err \<Rightarrow> Throws err
           | Outside_model \<Rightarrow> Outside_model)
      | Throws err \<Rightarrow> Throws err
      | Outside_model \<Rightarrow> Outside_model)"

text \<open>
  \<^verbatim>\<open>
  try {
    const response = await fetch(`${API_BASE_URL}?amount=10&difficulty=${difficulty}`);
    if (!response.ok) { throw new Error('Failed to fetch questions'); }
    const data: ApiResponse = await response.json();
    if (data.response_code !== 0) { throw new Error('No questions available for this difficulty'); }
    return data.results.map((apiQuestion, index) => { ... });
  } catch (error) {
    console.error('Error fetching quiz questions:', error);
    throw error;
  }
  \<close>
  \<open>fetch\<close> is the network: for a URL, a rejection or a response; \<open>level\<close> is the
  \<^verbatim>\<open>difficulty\<close> argument. The \<^verbatim>\<open>catch\<close> block logs and throws the same error
  again, so the result is the error of the \<^verbatim>\<open>try\<close> block.

  The type \<^verbatim>\<open>ApiResponse\<close> is only declared: \<open>data\<close> is whatever value the body
  holds. Reading a property of \<^verbatim>\<open>null\<close>, and calling \<^verbatim>\<open>map\<close> on a value that is
  not an array, throw a \<^verbatim>\<open>TypeError\<close>. Nothing compares the number of records with
  the 10 that the URL asks for.
\<close>

definition request_url :: "Difficulty \<Rightarrow> string" where
  "request_url level = API_BASE_URL @ ''?amount=10&difficulty='' @ difficulty_text level"

definition fetchQuizQuestions ::
  "(string \<Rightarrow> js_error + Response) \<Rightarrow> (string \<Rightarrow> string) \<Rightarrow> (nat \<Rightarrow> rat) \<Rightarrow>
   Difficulty \<Rightarrow> QuizQuestion list outcome" where
  "fetchQuizQuestions fetch textarea random level =
     (case fetch (request_url level) of
        Inl err \<Rightarrow> Throws err
      | Inr response \<Rightarrow>
          if \<not> ok response then Throws (Error ''Failed to fetch questions'')
          else (case json response of
                  Inl err \<Rightarrow> Throws err
                | Inr data \<Rightarrow>
                    if data = VNull then Throws (TypeError ''data.response_code'')
                    else if member data ''response_code'' \<noteq> Some (VNumber 0)
                    then Throws (Error ''No questions available for this difficulty'')
                    else (case member data ''results'' of
                            Some (VArray items) \<Rightarrow>
                              (case read_results items of
                                 Returns rs \<Rightarrow> Returns (map_results textarea random 0 0 rs)
                               | Throws err \<Rightarrow> Throws err
                               | Outside_model \<Rightarrow> Outside_model)
                          | _ \<Rightarrow> Throws (TypeError ''data.results.map''))))"

text \<open>The contract of \<^verbatim>\<open>Math.random\<close>: every number is at least 0 and below 1.\<close>

definition unit_interval :: "(nat \<Rightarrow> rat) \<Rightarrow> bool" where
  "unit_interval random \<longleftrightarrow> (\<forall>k. 0 \<le> random k \<and> random k < 1)"

text \<open>Records, bodies and networks used to evaluate the operation on concrete inputs.\<close>

definition sample_record :: "string \<Rightarrow> ApiQuestion" where
  "sample_record i =
     \<lparr> api_question = ''Q'' @ i, correct_answer = ''right'' @ i,
       incorrect_answers = [''wrong'' @ i, ''bad'' @ i, ''false'' @ i],
       api_category = ''General'', api_difficulty = ''easy'', api_type = ''multiple'' \<rparr>"

definition sample_item :: "string \<Rightarrow> js_value" where
  "sample_item i =
     VObject [(''type'', VString ''multiple''), (''difficulty'', VString ''easy''),
              (''category'', VString ''General''), (''question'', VString (''Q'' @ i)),
              (''correct_answer'', VString (''right'' @ i)),
              (''incorrect_answers'',
                 VArray [VString (''wrong'' @ i), VString (''bad'' @ i), VString (''false'' @ i)])]"

definition sample_body :: "nat \<Rightarrow> js_value" where
  "sample_body n =
     VObject [(''response_code'', VNumber 0),
              (''results'', VArray (map (\<lambda>i. sample_item (number_text i)) [0..<n]))]"

definition sample_fetch :: "js_error + js_value \<Rightarrow> string \<Rightarrow> js_error + Response" where
  "sample_fetch body url = Inr \<lparr> ok = True, json = body \<rparr>"

definition sample_random :: "nat \<Rightarrow> rat" where
  "sample_random k = 1 / 2"

definition sample_textarea :: "string \<Rightarrow> string" where
  "sample_textarea text = text"

section \<open>JSON texts\<close>

text \<open>
  \<^verbatim>\<open>JSON.parse\<close> belongs to the platform. It is modelled as a parser of the JSON
  grammar that returns the syntax tree of the text: a number is kept as its lexeme and a
  string as the characters between its quotes, escapes included. The tree determines the
  JavaScript value that \<^verbatim>\<open>JSON.parse\<close> returns; a text outside the grammar makes
  \<^verbatim>\<open>JSON.parse\<close> throw a \<^verbatim>\<open>SyntaxError\<close>.
\<close>

datatype json_value =
    JNull
  | JBool bool
  | JNumber string
  | JString string
  | JArray "json_value list"
  | JObject "(string \<times> json_value) list"

definition is_ws :: "char \<Rightarrow> bool" where
  "is_ws c \<longleftrightarrow> c = CHR '' '' \<or> c = CHR 0x09 \<or> c = CHR 0x0A \<or> c = CHR 0x0D"

definition skip_ws :: "string \<Rightarrow> string" where
  "skip_ws s = dropWhile is_ws s"

definition is_digit :: "char \<Rightarrow> bool" where
  "is_digit c \<longleftrightarrow> (48::nat) \<le> of_char c \<and> of_char c \<le> (57::nat)"

definition is_hex :: "char \<Rightarrow> bool" where
  "is_hex c \<longleftrightarrow> is_digit c \<or> c \<in> set ''abcdefABCDEF''"

text \<open>
  The characters of a string after its opening quote, up to the closing quote:
  \<open>CHR 0x22\<close> is the double quote and \<open>CHR 0x5C\<close> the backslash. A backslash starts
  one of the escapes of the grammar; a control character cannot stand unescaped.
\<close>

fun lex_string :: "string \<Rightarrow> (string \<times> string) option" where
  "lex_string [] = None"
| "lex_string (c # cs) =
     (if c = CHR 0x22 then Some ([], cs)
      else if c = CHR 0x5C then
        (case cs of
           [] \<Rightarrow> None
         | e # cs' \<Rightarrow>
             if e \<in> set [CHR 0x22, CHR 0x5C, CHR ''/'', CHR ''b'', CHR ''f'', CHR ''n'', CHR ''r'', CHR ''t''] then
               (case lex_string cs' of
                  None \<Rightarrow> None
                | Some (raw, rest) \<Rightarrow> Some (c # e # raw, rest))
             else if e = CHR ''u'' \<and> 4 \<le> length cs' \<and> list_all is_hex (take 4 cs') then
               (case lex_string (drop 4 cs') of
                  None \<Rightarrow> None
                | Some (raw, rest) \<Rightarrow> Some (c # e # take 4 cs' @ raw, rest))
             else None)
      else if (of_char c :: nat) < 32 then None
      else (case lex_string cs of
              None \<Rightarrow> None
            | Some (raw, rest) \<Rightarrow> Some (c # raw, rest)))"

text \<open>
  A number: an optional minus, an integer part without a leading zero (or a single
  zero), an optional fraction, an optional exponent.
\<close>

definition lex_digits :: "string \<Rightarrow> (string \<times> string) option" where
  "lex_digits s = (if takeWhile is_digit s = [] then None
                   else Some (takeWhile is_digit s, dropWhile is_digit s))"

definition lex_int :: "string \<Rightarrow> (string \<times> string) option" where
  "lex_int s =
     (case s of
        [] \<Rightarrow> None
      | c # cs \<Rightarrow> if c = CHR ''0'' then Some ([c], cs) else lex_digits s)"

definition lex_frac :: "string \<Rightarrow> (string \<times> string) option" where
  "lex_frac s =
     (case s of
        [] \<Rightarrow> Some ([], s)
      | c # cs \<Rightarrow>
          if c = CHR ''.'' then
            (case lex_digits cs of None \<Rightarrow> None | Some (ds, rest) \<Rightarrow> Some (c # ds, rest))
          else Some ([], s))"

definition lex_exp :: "string \<Rightarrow> (string \<times> string) option" where
  "lex_exp s =
     (case s of
        [] \<Rightarrow> Some ([], s)
      | c # cs \<Rightarrow>
          if c = CHR ''e'' \<or> c = CHR ''E'' then
            (case cs of
               [] \<Rightarrow> None
             | d # ds \<Rightarrow>
                 if d = CHR ''+'' \<or> d = CHR ''-'' then
                   (case lex_digits ds of None \<Rightarrow> None | Some (xs, rest) \<Rightarrow> Some (c # d # xs, rest))
                 else
                   (case lex_digits cs of None \<Rightarrow> None | Some (xs, rest) \<Rightarrow> Some (c # xs, rest)))
          else Some ([], s))"

definition lex_number :: "string \<Rightarrow> (string \<times> string) option" where
  "lex_number s =
     (let (sign, s0) =
            (case s of [] \<Rightarrow> ([], s) | c # cs \<Rightarrow> if c = CHR ''-'' then ([c], cs) else ([], s))
      in case lex_int s0 of
           None \<Rightarrow> None
         | Some (i, s1) \<Rightarrow>
             (case lex_frac s1 of
                None \<Rightarrow> None
              | Some (f, s2) \<Rightarrow>
                  (case lex_exp s2 of
                     None \<Rightarrow> None
                   | Some (e, s3) \<Rightarrow> Some (sign @ i @ f @ e, s3))))"

definition lex_literal :: "string \<Rightarrow> (json_value \<times> string) option" where
  "lex_literal s =
     (if take 4 s = ''true'' then Some (JBool True, drop 4 s)
      else if take 5 s = ''false'' then Some (JBool False, drop 5 s)
      else if take 4 s = ''null'' then Some (JNull, drop 4 s)
      else None)"

text \<open>
  A value, the elements of an array after its opening bracket or a comma, and the members
  of an object after its opening brace or a comma. Each returns what it has read and the
  rest of the text. The tests \<open>length _ < length s\<close> always hold, the rest being what
  is left of \<open>s\<close> after at least one character; they make the recursion descend on the
  length of the text.
\<close>

lemma skip_ws_measure:
  "length x \<le> length s \<Longrightarrow> 2 * length (skip_ws x) < Suc (2 * length s)"
  using length_dropWhile_le [of is_ws x] by (simp add: skip_ws_def)

function (sequential) parse_value :: "string \<Rightarrow> (json_value \<times> string) option"
  and parse_elements :: "string \<Rightarrow> (json_value list \<times> string) option"
  and parse_members :: "string \<Rightarrow> ((string \<times> json_value) list \<times> string) option"
where
  "parse_value [] = None"
| "parse_value (c # cs) =
     (if c = CHR ''['' then
        (case skip_ws cs of
           [] \<Rightarrow> None
         | d # rest \<Rightarrow>
             if d = CHR '']'' then Some (JArray [], rest)
             else (case parse_elements cs of
                     None \<Rightarrow> None
                   | Some (vs, rest') \<Rightarrow> Some (JArray vs, rest')))
      else if c = CHR ''{'' then
        (case skip_ws cs of
           [] \<Rightarrow> None
         | d # rest \<Rightarrow>
             if d = CHR ''}'' then Some (JObject [], rest)
             else (case parse_members cs of
                     None \<Rightarrow> None
                   | Some (ms, rest') \<Rightarrow> Some (JObject ms, rest')))
      else if c = CHR 0x22 then
        (case lex_string cs of
           None \<Rightarrow> None
         | Some (raw, rest) \<Rightarrow> Some (JString raw, rest))
      else if c = CHR ''-'' \<or> is_digit c then
        (case lex_number (c # cs) of
           None \<Rightarrow> None
         | Some (lexeme, rest) \<Rightarrow> Some (JNumber lexeme, rest))
      else lex_literal (c # cs))"
| "parse_elements s =
     (case parse_value (skip_ws s) of
        None \<Rightarrow> None
      | Some (v, rest) \<Rightarrow>
          (case skip_ws rest of
             [] \<Rightarrow> None
           | d # rest' \<Rightarrow>
               if d = CHR '']'' then Some ([v], rest')
               else if d = CHR '','' \<and> length rest' < length s then
                 (case parse_elements rest' of
                    None \<Rightarrow> None
                  | Some (vs, r) \<Rightarrow> Some (v # vs, r))
               else None))"
| "parse_members s =
     (case skip_ws s of
        [] \<Rightarrow> None
      | q # s1 \<Rightarrow>
          if q \<noteq> CHR 0x22 then None
          else (case lex_string s1 of
                  None \<Rightarrow> None
                | Some (key, s2) \<Rightarrow>
                    (case skip_ws s2 of
                       [] \<Rightarrow> None
                     | colon # s3 \<Rightarrow>
                         if colon \<noteq> CHR '':'' \<or> \<not> length s3 < length s then None
                         else (case parse_value (skip_ws s3) of
                                 None \<Rightarrow> None
                               | Some (v, rest) \<Rightarrow>
                                   (case skip_ws rest of
                                      [] \<Rightarrow> None
                                    | d # rest' \<Rightarrow>
                                        if d = CHR ''}'' then Some ([(key, v)], rest')
                                        else if d = CHR '','' \<and> length rest' < length s then
                                          (case parse_members rest' of
                                             None \<Rightarrow> None
                                           | Some (ms, r) \<Rightarrow> Some ((key, v) # ms, r))
                                        else None)))))"
  by pat_completeness auto

termination
  by (relation "measure (\<lambda>x. case x of
            Inl s \<Rightarrow> 2 * length s
          | Inr (Inl s) \<Rightarrow> 2 * length s + 1
          | Inr (Inr s) \<Rightarrow> 2 * length s + 1)")
     (auto intro!: skip_ws_measure)

declare parse_value.simps [simp del] parse_elements.simps [simp del] parse_members.simps [simp del]

text \<open>
  \<^verbatim>\<open>JSON.parse(text)\<close>: one value, with white space around it and nothing else.
\<close>

definition JSON_parse :: "string \<Rightarrow> js_error + json_value" where
  "JSON_parse text =
     (case parse_value (skip_ws text) of
        None \<Rightarrow> Inl (SyntaxError ''JSON.parse'')
      | Some (v, rest) \<Rightarrow>
          if skip_ws rest = [] then Inr v else Inl (SyntaxError ''JSON.parse''))"

section \<open>The high-score ledger (context/QuizContext.tsx)\<close>

text \<open>\<^verbatim>\<open>localStorage\<close>: the text stored under each key.\<close>

type_synonym storage = "string \<Rightarrow> string option"

definition ledger_key :: string where
  "ledger_key = ''quiz-high-scores''"

text \<open>
  \<^verbatim>\<open>
  const saved = localStorage.getItem('quiz-high-scores');
  return saved ? JSON.parse(saved) : [];
  \<close>
  A missing item is \<^verbatim>\<open>null\<close>; \<^verbatim>\<open>null\<close> and the empty text are falsy. Nothing
  catches what \<^verbatim>\<open>JSON.parse\<close> throws.
\<close>

definition getHighScores :: "storage \<Rightarrow> js_error + json_value" where
  "getHighScores localStorage =
     (case localStorage ledger_key of
        None \<Rightarrow> Inr (JArray [])
      | Some saved \<Rightarrow> if saved = [] then Inr (JArray []) else JSON_parse saved)"

section \<open>From a syntax tree to the value\<close>

text \<open>
  The value that a syntax tree stands for, when the model has it. A number is read when
  its lexeme is an integer, digits with an optional minus, that a double holds exactly;
  \<^verbatim>\<open>JSON.parse\<close> rounds the other numbers to doubles, which the model does not have.
  The text of a string is its characters with the escapes resolved; an escape
  \<^verbatim>\<open>\uXXXX\<close> above \<^verbatim>\<open>\u00FF\<close> has no character in \<open>string\<close>.
\<close>

definition digits_value :: "string \<Rightarrow> nat" where
  "digits_value ds = foldl (\<lambda>n c. 10 * n + (of_char c - 48)) 0 ds"

definition as_integer :: "string \<Rightarrow> int option" where
  "as_integer lexeme =
     (case lexeme of
        [] \<Rightarrow> None
      | c # cs \<Rightarrow>
          if c = CHR ''-'' then
            (if cs \<noteq> [] \<and> list_all is_digit cs \<and> safe_integer (- int (digits_value cs))
             then Some (- int (digits_value cs)) else None)
          else if list_all is_digit lexeme \<and> safe_integer (int (digits_value lexeme))
          then Some (int (digits_value lexeme))
          else None)"

definition hex_value :: "char \<Rightarrow> nat" where
  "hex_value c =
     (if is_digit c then of_char c - 48
      else if c \<in> set ''abcdef'' then of_char c - 87
      else of_char c - 55)"

definition hex4_value :: "string \<Rightarrow> nat" where
  "hex4_value hs = foldl (\<lambda>n c. 16 * n + hex_value c) 0 hs"

fun unescape :: "string \<Rightarrow> string option" where
  "unescape [] = Some []"
| "unescape (c # cs) =
     (if c = CHR 0x5C then
        (case cs of
           [] \<Rightarrow> None
         | e # cs' \<Rightarrow>
             if e = CHR ''u'' then
               (if 4 \<le> length cs' \<and> list_all is_hex (take 4 cs') \<and> hex4_value (take 4 cs') < 256
                then map_option ((#) (char_of (hex4_value (take 4 cs')))) (unescape (drop 4 cs'))
                else None)
             else if e = CHR ''b'' then map_option ((#) (CHR 0x08)) (unescape cs')
             else if e = CHR ''t'' then map_option ((#) (CHR 0x09)) (unescape cs')
             else if e = CHR ''n'' then map_option ((#) (CHR 0x0A)) (unescape cs')
             else if e = CHR ''f'' then map_option ((#) (CHR 0x0C)) (unescape cs')
             else if e = CHR ''r'' then map_option ((#) (CHR 0x0D)) (unescape cs')
             else if e = CHR 0x22 \<or> e = CHR 0x5C \<or> e = CHR ''/'' then map_option ((#) e) (unescape cs')
             else None)
      else map_option ((#) c) (unescape cs))"

text \<open>
  The keys of an object come in the order of the text when each occurs once and none is
  the decimal text of an integer; \<^verbatim>\<open>JSON.parse\<close> moves integer keys to the front and
  lets a repeated key keep its first place with its last value, which the model leaves
  out.
\<close>

definition integer_key :: "string \<Rightarrow> bool" where
  "integer_key k \<longleftrightarrow> k \<noteq> [] \<and> list_all is_digit k \<and> (k = ''0'' \<or> hd k \<noteq> CHR ''0'')"

definition plain_keys :: "string list \<Rightarrow> bool" where
  "plain_keys ks \<longleftrightarrow> distinct ks \<and> \<not> list_ex integer_key ks"

fun value_of :: "json_value \<Rightarrow> js_value option"
  and values_of :: "json_value list \<Rightarrow> js_value list option"
  and members_of :: "(string \<times> json_value) list \<Rightarrow> (string \<times> js_value) list option"
where
  "value_of JNull = Some VNull"
| "value_of (JBool b) = Some (VBool b)"
| "value_of (JNumber lexeme) = map_option VNumber (as_integer lexeme)"
| "value_of (JString raw) = map_option VString (unescape raw)"
| "value_of (JArray ts) = map_option VArray (values_of ts)"
| "value_of (JObject ms) =
     (case members_of ms of
        None \<Rightarrow> None
      | Some kvs \<Rightarrow> if plain_keys (map fst kvs) then Some (VObject kvs) else None)"
| "values_of [] = Some []"
| "values_of (t # ts) =
     (case value_of t of
        None \<Rightarrow> None
      | Some v \<Rightarrow> map_option ((#) v) (values_of ts))"
| "members_of [] = Some []"
| "members_of ((raw, t) # ms) =
     (case unescape raw of
        None \<Rightarrow> None
      | Some key \<Rightarrow>
          (case value_of t of
             None \<Rightarrow> None
           | Some v \<Rightarrow> map_option ((#) (key, v)) (members_of ms)))"

section \<open>From a value to its text\<close>

text \<open>
  \<^verbatim>\<open>JSON.stringify\<close>: no white space, the members of an object in property order,
  integers in decimal, strings in quotes with the quote, the backslash and the control
  characters escaped.
\<close>

definition int_text :: "int \<Rightarrow> string" where
  "int_text n = (if n < 0 then CHR ''-'' # number_text (nat (- n)) else number_text (nat n))"

definition hex_digit :: "nat \<Rightarrow> char" where
  "hex_digit n = (if n < 10 then char_of (48 + n) else char_of (87 + n))"

definition quote_char :: "char \<Rightarrow> string" where
  "quote_char c =
     (if c = CHR 0x08 then [CHR 0x5C, CHR ''b'']
      else if c = CHR 0x09 then [CHR 0x5C, CHR ''t'']
      else if c = CHR 0x0A then [CHR 0x5C, CHR ''n'']
      else if c = CHR 0x0C then [CHR 0x5C, CHR ''f'']
      else if c = CHR 0x0D then [CHR 0x5C, CHR ''r'']
      else if c = CHR 0x22 then [CHR 0x5C, CHR 0x22]
      else if c = CHR 0x5C then [CHR 0x5C, CHR 0x5C]
      else if (of_char c :: nat) < 32 then
        [CHR 0x5C, CHR ''u'', CHR ''0'', CHR ''0'',
         hex_digit (of_char c div 16), hex_digit (of_char c mod 16)]
      else [c])"

definition quote_text :: "string \<Rightarrow> string" where
  "quote_text s = CHR 0x22 # concat (map quote_char s) @ [CHR 0x22]"

fun JSON_stringify :: "js_value \<Rightarrow> string"
  and stringify_elements :: "js_value list \<Rightarrow> string"
  and stringify_members :: "(string \<times> js_value) list \<Rightarrow> string"
where
  "JSON_stringify VNull = ''null''"
| "JSON_stringify (VBool b) = (if b then ''true'' else ''false'')"
| "JSON_stringify (VNumber n) = int_text n"
| "JSON_stringify (VString s) = quote_text s"
| "JSON_stringify (VArray vs) = CHR ''['' # stringify_elements vs @ [CHR '']'']"
| "JSON_stringify (VObject ms) = CHR ''{'' # stringify_members ms @ [CHR ''}'']"
| "stringify_elements [] = []"
| "stringify_elements [v] = JSON_stringify v"
| "stringify_elements (v # vs) = JSON_stringify v @ CHR '','' # stringify_elements vs"
| "stringify_members [] = []"
| "stringify_members [(key, v)] = quote_text key @ CHR '':'' # JSON_stringify v"
| "stringify_members ((key, v) # ms) =
     quote_text key @ CHR '':'' # JSON_stringify v @ CHR '','' # stringify_members ms"

text \<open>
  What can follow a value inside a text: the end, a comma, or a closing bracket or brace.
\<close>

definition closes :: "string \<Rightarrow> bool" where
  "closes rest \<longleftrightarrow> (case rest of [] \<Rightarrow> True | c # cs \<Rightarrow> c = CHR '','' \<or> c = CHR '']'' \<or> c = CHR ''}'')"

text \<open>
  The values of the model: every number an integer that a double holds exactly, the keys
  of every object plain.
\<close>

fun in_model :: "js_value \<Rightarrow> bool"
  and all_in_model :: "js_value list \<Rightarrow> bool"
  and members_in_model :: "(string \<times> js_value) list \<Rightarrow> bool"
where
  "in_model VNull = True"
| "in_model (VBool b) = True"
| "in_model (VNumber n) = safe_integer n"
| "in_model (VString s) = True"
| "in_model (VArray vs) = all_in_model vs"
| "in_model (VObject ms) = (plain_keys (map fst ms) \<and> members_in_model ms)"
| "all_in_model [] = True"
| "all_in_model (v # vs) = (in_model v \<and> all_in_model vs)"
| "members_in_model [] = True"
| "members_in_model ((key, v) # ms) = (in_model v \<and> members_in_model ms)"

text \<open>The syntax tree of the text that \<open>JSON_stringify\<close> writes.\<close>

fun tree_of :: "js_value \<Rightarrow> json_value"
  and trees_of :: "js_value list \<Rightarrow> json_value list"
  and member_trees_of :: "(string \<times> js_value) list \<Rightarrow> (string \<times> json_value) list"
where
  "tree_of VNull = JNull"
| "tree_of (VBool b) = JBool b"
| "tree_of (VNumber n) = JNumber (int_text n)"
| "tree_of (VString s) = JString (concat (map quote_char s))"
| "tree_of (VArray vs) = JArray (trees_of vs)"
| "tree_of (VObject ms) = JObject (member_trees_of ms)"
| "trees_of [] = []"
| "trees_of (v # vs) = tree_of v # trees_of vs"
| "member_trees_of [] = []"
| "member_trees_of ((key, v) # ms) = (concat (map quote_char key), tree_of v) # member_trees_of ms"

section \<open>Saving a score\<close>

text \<open>
  \<^verbatim>\<open>
  if (state.isCompleted) {
    const highScores = getHighScores();
    const newScore = { score: state.score, totalQuestions: state.questions.length,
                       difficulty: state.difficulty, date: new Date().toISOString() };
    highScores.push(newScore);
    highScores.sort((a, b) => b.score - a.score);
    const topScores = highScores.slice(0, 5);
    localStorage.setItem('quiz-high-scores', JSON.stringify(topScores));
  }
  \<close>
  \<open>now\<close> is the text of \<^verbatim>\<open>new Date().toISOString()\<close>. The call returns with the
  storage it leaves, or throws and leaves the storage as it was. \<^verbatim>\<open>push\<close> on a value
  that is not an array is a \<^verbatim>\<open>TypeError\<close>. \<^verbatim>\<open>sort\<close> is stable; when every element
  has a number as its \<^verbatim>\<open>score\<close>, the comparator puts the higher score first and the
  other members of an element play no part. The model does not follow the call when the
  parsed value is outside the model, when an element has no number as its score (the
  comparator then gives no definite order), or when the score or the number of questions
  of the session is not an integer that a double holds exactly.
\<close>

definition score_of :: "js_value \<Rightarrow> int option" where
  "score_of v = (case member v ''score'' of Some (VNumber n) \<Rightarrow> Some n | _ \<Rightarrow> None)"

definition score_key :: "js_value \<Rightarrow> int" where
  "score_key v = (case score_of v of Some n \<Rightarrow> n | None \<Rightarrow> 0)"

definition exact_counts :: "QuizState \<Rightarrow> bool" where
  "exact_counts state \<longleftrightarrow>
     safe_integer (score state) \<and> safe_integer (int (length (questions state)))"

definition newScore :: "QuizState \<Rightarrow> string \<Rightarrow> js_value" where
  "newScore state now =
     VObject [(''score'', VNumber (score state)),
              (''totalQuestions'', VNumber (int (length (questions state)))),
              (''difficulty'', VString (difficulty_text (difficulty state))),
              (''date'', VString now)]"

definition saveHighScore :: "QuizState \<Rightarrow> string \<Rightarrow> storage \<Rightarrow> storage outcome" where
  "saveHighScore state now localStorage =
     (if isCompleted state then
        (case getHighScores localStorage of
           Inl err \<Rightarrow> Throws err
         | Inr tree \<Rightarrow>
             (case value_of tree of
                None \<Rightarrow> Outside_model
              | Some (VArray highScores) \<Rightarrow>
                  if \<not> exact_counts state then Outside_model
                  else
                    let pushed = highScores @ [newScore state now]
                    in if list_all (\<lambda>v. score_of v \<noteq> None) pushed then
                         let sorted = sort_key (\<lambda>v. - score_key v) pushed;
                             topScores = take 5 sorted
                         in Returns (localStorage(ledger_key \<mapsto> JSON_stringify (VArray topScores)))
                       else Outside_model
              | Some _ \<Rightarrow> Throws (TypeError ''highScores.push'')))
      else Returns localStorage)"

text \<open>
  A sequence of writes, each for a session state at a time. A write that throws leaves
  the storage as it was; a write that the model does not follow ends what the model says
  about the sequence.
\<close>

fun save_all :: "(QuizState \<times> string) list \<Rightarrow> storage \<Rightarrow> storage option" where
  "save_all [] localStorage = Some localStorage"
| "save_all ((state, now) # rest) localStorage =
     (case saveHighScore state now localStorage of
        Returns localStorage' \<Rightarrow> save_all rest localStorage'
      | Throws err \<Rightarrow> save_all rest localStorage
      | Outside_model \<Rightarrow> None)"

text \<open>
  The ledger that the storage holds: the elements of the stored array, when the stored
  text is an array of the model whose elements each have a number as score, whatever
  their other members and the order of the members. It is in order when it has at most
  5 entries, sorted by descending score.
\<close>

definition stored_ledger :: "storage \<Rightarrow> js_value list option" where
  "stored_ledger localStorage =
     (case getHighScores localStorage of
        Inl err \<Rightarrow> None
      | Inr tree \<Rightarrow>
          (case value_of tree of
             Some (VArray items) \<Rightarrow>
               if list_all (\<lambda>v. score_of v \<noteq> None) items then Some items else None
           | _ \<Rightarrow> None))"

definition ledger_in_order :: "js_value list \<Rightarrow> bool" where
  "ledger_in_order items \<longleftrightarrow>
     length items \<le> 5 \<and> sorted_wrt (\<lambda>a b. score_key b \<le> score_key a) items"

definition ledger_ok :: "storage \<Rightarrow> bool" where
  "ledger_ok localStorage \<longleftrightarrow>
     (case stored_ledger localStorage of None \<Rightarrow> False | Some items \<Rightarrow> ledger_in_order items)"

text \<open>Storages and a completed session used to evaluate the ledger on concrete inputs.\<close>

definition empty_storage :: storage where
  "empty_storage = (\<lambda>key. None)"

definition corrupt_storage :: storage where
  "corrupt_storage = empty_storage(ledger_key \<mapsto> ''{'')"

definition finished_state :: QuizState where
  "finished_state = quizReducer answered_state FINISH_QUIZ"

definition sample_now :: string where
  "sample_now = ''2024-05-06T07:08:09.123Z''"

definition entry_text :: "string \<Rightarrow> string \<Rightarrow> string" where
  "entry_text n d =
     CHR ''{'' # quote_text ''date'' @ '' : '' @ quote_text d @ '', '' @ quote_text ''by'' @
     '':null,'' @ quote_text ''score'' @ CHR '':'' # n @ ''}''"

definition sample_entry :: "int \<Rightarrow> string \<Rightarrow> js_value" where
  "sample_entry n d = VObject [(''date'', VString d), (''by'', VNull), (''score'', VNumber n)]"

definition crowded_storage :: storage where
  "crowded_storage =
     empty_storage(ledger_key \<mapsto>
       '' [ '' @ entry_text ''0'' ''a'' @ '','' @ entry_text ''7'' ''b'' @ '','' @
       entry_text ''1'' ''c'' @ '' , '' @ entry_text ''7'' ''d'' @ '','' @
       entry_text ''-2'' ''e'' @ '','' @ entry_text ''4'' ''f'' @ '']'')"

section \<open>Scoring\<close>

lemma reduce_score_snoc:
  "reduce_score qs (as @ [a]) k acc =
     (let r = reduce_score qs as k acc in
      if a = Hole then r
      else if strict_equals a (optional_answer qs (k + length as)) then r + 1 else r)"
  by (induction as arbitrary: k acc) (simp_all add: Let_def)

lemma strict_equals_in_range:
  "i < length qs \<Longrightarrow>
   a \<noteq> Hole \<and> strict_equals a (optional_answer qs i) \<longleftrightarrow> a = Answer (answer (qs ! i))"
  by (cases a) (auto simp: optional_answer_def)

lemma reduce_score_filter:
  "length as \<le> length qs \<Longrightarrow>
   reduce_score qs as 0 0 =
     int (length (filter (\<lambda>i. as ! i = Answer (answer (qs ! i))) [0..<length as]))"
proof (induction as rule: rev_induct)
  case Nil
  then show ?case by simp
next
  case (snoc a as)
  then have len: "length as < length qs" by simp
  have same: "filter (\<lambda>i. (as @ [a]) ! i = Answer (answer (qs ! i))) [0..<length as] =
              filter (\<lambda>i. as ! i = Answer (answer (qs ! i))) [0..<length as]"
    by (rule filter_cong) (auto simp: nth_append)
  show ?case
    using snoc.IH len strict_equals_in_range [OF len, of a]
    by (auto simp: reduce_score_snoc Let_def same)
qed

lemma count_indices_card:
  "length (filter P [0..<n]) = card {i. i < n \<and> P i}"
proof -
  have "{i. i < n \<and> P i} = set (filter P [0..<n])" by auto
  moreover have "card (set (filter P [0..<n])) = length (filter P [0..<n])"
    by (rule distinct_card) simp
  ultimately show ?thesis by simp
qed

lemma reduce_score_upper:
  "reduce_score qs as k acc \<le> acc + int (length (filter (\<lambda>a. a \<noteq> Null) as))"
proof (induction as arbitrary: k acc)
  case Nil
  then show ?case by simp
next
  case (Cons a as)
  have "strict_equals Null x = False" for x by simp
  then show ?case
    using Cons.IH [of "Suc k" "acc + 1"] Cons.IH [of "Suc k" acc]
    by (cases "a = Null") auto
qed

text \<open>
  C1. With one answer slot per question, \<open>FINISH_QUIZ\<close> sets the score to the number of
  indices whose slot holds exactly the correct-answer text of the question at that index,
  and sets \<open>isCompleted\<close>. A null slot never counts: the score is at most the number of
  slots that are not null.
\<close>

theorem finish_quiz_score:
  assumes "length (userAnswers s) = length (questions s)"
  shows "score (quizReducer s FINISH_QUIZ) =
           int (card {i. i < length (userAnswers s) \<and>
                         userAnswers s ! i = Answer (answer (questions s ! i))})
         \<and> isCompleted (quizReducer s FINISH_QUIZ)
         \<and> score (quizReducer s FINISH_QUIZ)
             \<le> int (length (filter (\<lambda>a. a \<noteq> Null) (userAnswers s)))"
  using assms reduce_score_filter [of "userAnswers s" "questions s"]
    reduce_score_upper [of "questions s" "userAnswers s" 0 0]
  by (simp add: count_indices_card)

theorem finish_quiz_score_witness:
  "length (userAnswers answered_state) = length (questions answered_state)
   \<and> score (quizReducer answered_state FINISH_QUIZ) = 1
   \<and> score (quizReducer answered_state FINISH_QUIZ) =
       int (card {i. i < length (userAnswers answered_state) \<and>
                     userAnswers answered_state ! i =
                       Answer (answer (questions answered_state ! i))})"
proof -
  have slots: "length (userAnswers answered_state) = length (questions answered_state)"
    by (simp add: answered_state_def)
  have one: "score (quizReducer answered_state FINISH_QUIZ) = 1"
    by (simp add: answered_state_def sample_question_def optional_answer_def)
  show ?thesis
    using slots one finish_quiz_score [OF slots] by blast
qed

section \<open>Answers after completion\<close>

text \<open>
  C2, as stated, fails: the reducer has no guard on \<open>isCompleted\<close>. After
  \<open>FINISH_QUIZ\<close>, \<open>SELECT_ANSWER\<close> still overwrites the slot at the current position.
\<close>

theorem select_after_finish_counterexample:
  "isCompleted (quizReducer answered_state FINISH_QUIZ)
   \<and> userAnswers (quizReducer (quizReducer answered_state FINISH_QUIZ) (SELECT_ANSWER ''late''))
       \<noteq> userAnswers (quizReducer answered_state FINISH_QUIZ)"
  by (simp add: answered_state_def spread_def array_set_def)

text \<open>
  C2, amended. On a completed state the actions \<open>NEXT_QUESTION\<close>, \<open>PREVIOUS_QUESTION\<close>,
  \<open>FINISH_QUIZ\<close>, \<open>SET_LOADING\<close>, \<open>SET_ERROR\<close>, \<open>DECREMENT_TIMER\<close> and \<open>RESET_TIMER\<close>
  leave every answer slot unchanged. The answers are not frozen: \<open>SELECT_ANSWER t\<close> writes
  \<open>t\<close> into the slot at the current position (for a position inside the array the number
  of slots stays the same and every other slot that is not a hole keeps its value), and
  \<open>SET_QUESTIONS\<close> allocates one null slot per question.
\<close>

theorem answers_after_completion:
  assumes "isCompleted s"
  shows "(\<forall>a \<in> {NEXT_QUESTION, PREVIOUS_QUESTION, FINISH_QUIZ, DECREMENT_TIMER, RESET_TIMER}
               \<union> range SET_LOADING \<union> range SET_ERROR.
            userAnswers (quizReducer s a) = userAnswers s)
       \<and> userAnswers (quizReducer s (SELECT_ANSWER t)) =
             array_set (spread (userAnswers s)) (currentQuestionIndex s) (Answer t)
       \<and> (0 \<le> currentQuestionIndex s \<and> currentQuestionIndex s < int (length (userAnswers s))
            \<longrightarrow> length (userAnswers (quizReducer s (SELECT_ANSWER t))) = length (userAnswers s)
              \<and> userAnswers (quizReducer s (SELECT_ANSWER t)) ! nat (currentQuestionIndex s)
                  = Answer t
              \<and> (\<forall>j < length (userAnswers s).
                    j \<noteq> nat (currentQuestionIndex s) \<and> userAnswers s ! j \<noteq> Hole
                    \<longrightarrow> userAnswers (quizReducer s (SELECT_ANSWER t)) ! j = userAnswers s ! j))
       \<and> userAnswers (quizReducer s (SET_QUESTIONS qs)) = replicate (length qs) Null"
  using assms by (auto simp: array_set_def spread_def)

theorem answers_after_completion_witness:
  "isCompleted (quizReducer answered_state FINISH_QUIZ)
   \<and> userAnswers (quizReducer (quizReducer answered_state FINISH_QUIZ) NEXT_QUESTION)
       = [Answer ''a0'', Null, Answer ''wrong'']
   \<and> userAnswers (quizReducer (quizReducer answered_state FINISH_QUIZ) (SELECT_ANSWER ''late''))
       = [Answer ''a0'', Answer ''late'', Answer ''wrong'']"
proof -
  have fin: "isCompleted (quizReducer answered_state FINISH_QUIZ)" by simp
  have slots: "userAnswers answered_state = [Answer ''a0'', Null, Answer ''wrong'']"
    and here: "currentQuestionIndex answered_state = 1"
    by (simp_all add: answered_state_def)
  show ?thesis
    using fin answers_after_completion [OF fin, of "''late''"]
    by (simp add: slots here array_set_def spread_def)
qed

section \<open>Navigation\<close>

text \<open>
  C8. \<open>NEXT_QUESTION\<close> moves to \<open>min (position + 1) (length - 1)\<close>, \<open>PREVIOUS_QUESTION\<close>
  to \<open>max (position - 1) 0\<close>; both set \<open>timeLeft\<close> to 30 and keep the answers. From an
  in-progress state at a position above 0, previous then next comes back to the same
  position with the same answers.
\<close>

theorem navigation:
  "currentQuestionIndex (quizReducer s NEXT_QUESTION) =
       min (currentQuestionIndex s + 1) (int (length (questions s)) - 1)
   \<and> currentQuestionIndex (quizReducer s PREVIOUS_QUESTION) = max (currentQuestionIndex s - 1) 0
   \<and> timeLeft (quizReducer s NEXT_QUESTION) = 30
   \<and> timeLeft (quizReducer s PREVIOUS_QUESTION) = 30
   \<and> userAnswers (quizReducer s NEXT_QUESTION) = userAnswers s
   \<and> userAnswers (quizReducer s PREVIOUS_QUESTION) = userAnswers s
   \<and> (in_progress s \<and> 0 < currentQuestionIndex s \<longrightarrow>
        currentQuestionIndex (quizReducer (quizReducer s PREVIOUS_QUESTION) NEXT_QUESTION)
          = currentQuestionIndex s
        \<and> userAnswers (quizReducer (quizReducer s PREVIOUS_QUESTION) NEXT_QUESTION)
          = userAnswers s)"
  by (auto simp: in_progress_def)

theorem navigation_witness:
  "in_progress answered_state \<and> 0 < currentQuestionIndex answered_state
   \<and> currentQuestionIndex (quizReducer (quizReducer answered_state PREVIOUS_QUESTION) NEXT_QUESTION) = 1
   \<and> userAnswers (quizReducer (quizReducer answered_state PREVIOUS_QUESTION) NEXT_QUESTION)
        = [Answer ''a0'', Null, Answer ''wrong'']"
proof -
  have now: "in_progress answered_state \<and> 0 < currentQuestionIndex answered_state"
    by (simp add: in_progress_def answered_state_def)
  have here: "currentQuestionIndex answered_state = 1"
    and slots: "userAnswers answered_state = [Answer ''a0'', Null, Answer ''wrong'']"
    by (simp_all add: answered_state_def)
  show ?thesis
    using now here slots navigation [of answered_state] by simp
qed

section \<open>Starting a quiz\<close>

text \<open>
  C9. \<open>START_QUIZ d\<close> followed by \<open>SET_QUESTIONS\<close> with ten questions gives, from any
  state, the state with these questions, ten null answer slots, position 0, 30 seconds
  left, not loading, no error, not completed: an in-progress state.
\<close>

theorem start_then_loaded:
  assumes "length qs = 10"
  shows "quizReducer (quizReducer s (START_QUIZ d)) (SET_QUESTIONS qs) =
           \<lparr> questions = qs, currentQuestionIndex = 0,
             userAnswers = [Null, Null, Null, Null, Null, Null, Null, Null, Null, Null],
             score = 0, isCompleted = False, difficulty = d, timeLeft = 30,
             isLoading = False, error = None \<rparr>
         \<and> in_progress (quizReducer (quizReducer s (START_QUIZ d)) (SET_QUESTIONS qs))"
proof -
  from assms have "qs \<noteq> []" by auto
  with assms show ?thesis
    by (simp add: initialState_def in_progress_def numeral_eq_Suc)
qed

theorem start_then_loaded_witness:
  "length ten_questions = 10 \<and>
   userAnswers (quizReducer (quizReducer answered_state (START_QUIZ easy)) (SET_QUESTIONS ten_questions))
     = replicate 10 Null
   \<and> in_progress (quizReducer (quizReducer answered_state (START_QUIZ easy)) (SET_QUESTIONS ten_questions))"
proof -
  have ten: "length ten_questions = 10" by (simp add: ten_questions_def)
  have some: "ten_questions \<noteq> []" by (simp add: ten_questions_def)
  show ?thesis
    using ten some start_then_loaded [OF ten, of answered_state easy]
    by (simp add: in_progress_def numeral_eq_Suc)
qed

section \<open>What finishing leaves alone\<close>

text \<open>
  C10. \<open>FINISH_QUIZ\<close> changes only \<open>score\<close> and \<open>isCompleted\<close>: the questions, the
  answers, the position, the difficulty, the time left, the loading flag and the error
  are those of the input state.
\<close>

theorem finish_quiz_frame:
  "questions (quizReducer s FINISH_QUIZ) = questions s
   \<and> userAnswers (quizReducer s FINISH_QUIZ) = userAnswers s
   \<and> currentQuestionIndex (quizReducer s FINISH_QUIZ) = currentQuestionIndex s
   \<and> difficulty (quizReducer s FINISH_QUIZ) = difficulty s
   \<and> timeLeft (quizReducer s FINISH_QUIZ) = timeLeft s
   \<and> isLoading (quizReducer s FINISH_QUIZ) = isLoading s
   \<and> error (quizReducer s FINISH_QUIZ) = error s"
  by simp

section \<open>Normalizing and fetching questions\<close>

lemma random_index_le:
  assumes "0 \<le> r" "r < (1::rat)"
  shows "nat \<lfloor>r * of_nat (Suc i)\<rfloor> \<le> i"
proof -
  have "r * of_nat (Suc i) < of_nat (Suc i)"
    using assms by (simp add: mult_less_cancel_right2 del: of_nat_Suc)
  then have "\<lfloor>r * of_nat (Suc i)\<rfloor> < int (Suc i)"
    by (simp add: floor_less_iff del: of_nat_Suc)
  then show ?thesis by linarith
qed

lemma mset_shuffle_loop:
  "unit_interval random \<Longrightarrow> i < length xs \<or> i = 0 \<Longrightarrow>
   mset (fst (shuffle_loop random k i xs)) = mset xs"
proof (induction i arbitrary: k xs)
  case 0
  then show ?case by simp
next
  case (Suc i)
  let ?j = "nat \<lfloor>random k * of_nat (Suc i + 1)\<rfloor>"
  let ?ys = "xs[Suc i := xs ! ?j, ?j := xs ! Suc i]"
  from Suc.prems have r: "0 \<le> random k" "random k < 1" and i: "Suc i < length xs"
    by (simp_all add: unit_interval_def)
  have j: "?j \<le> Suc i" using random_index_le [OF r, of "Suc i"] by simp
  with i have "mset ?ys = mset xs" by (simp add: mset_swap)
  moreover have "mset (fst (shuffle_loop random (Suc k) i ?ys)) = mset ?ys"
    using Suc.prems(1) i by (intro Suc.IH) simp_all
  ultimately show ?case by (simp add: Let_def)
qed

lemma mset_shuffleArray:
  "unit_interval random \<Longrightarrow> mset (fst (shuffleArray random k xs)) = mset xs"
  unfolding shuffleArray_def by (rule mset_shuffle_loop) (cases xs; simp)+

lemma normalizeQuestion_options:
  assumes "unit_interval random"
  shows "mset (options (fst (normalizeQuestion textarea random k r index))) =
           mset (decodeHtmlEntities textarea (correct_answer r)
                 # map (decodeHtmlEntities textarea) (incorrect_answers r))"
    and "answer (fst (normalizeQuestion textarea random k r index)) =
           decodeHtmlEntities textarea (correct_answer r)"
    and "answer (fst (normalizeQuestion textarea random k r index))
           \<in> set (options (fst (normalizeQuestion textarea random k r index)))"
proof -
  let ?all = "decodeHtmlEntities textarea (correct_answer r)
              # map (decodeHtmlEntities textarea) (incorrect_answers r)"
  let ?q = "fst (normalizeQuestion textarea random k r index)"
  have opts: "options ?q = fst (shuffleArray random k ?all)"
    by (simp add: normalizeQuestion_def Let_def split: prod.splits)
  show ans: "answer ?q = decodeHtmlEntities textarea (correct_answer r)"
    by (simp add: normalizeQuestion_def Let_def split: prod.splits)
  show perm: "mset (options ?q) = mset ?all"
    unfolding opts using assms by (rule mset_shuffleArray)
  then have "set (options ?q) = set ?all"
    by (rule mset_eq_setD)
  with ans show "answer ?q \<in> set (options ?q)" by simp
qed

text \<open>
  C5. With \<^verbatim>\<open>Math.random\<close> in its range, \<open>shuffleArray\<close> returns a permutation of
  its argument, so the options of a normalized question are a permutation of the decoded
  correct answer together with the decoded incorrect answers; the stored answer is the
  decoded correct answer and occurs among the options.
\<close>

theorem options_permutation:
  assumes "unit_interval random"
  shows "mset (fst (shuffleArray random k xs)) = mset xs
       \<and> mset (options (fst (normalizeQuestion textarea random k r index))) =
           mset (decodeHtmlEntities textarea (correct_answer r)
                 # map (decodeHtmlEntities textarea) (incorrect_answers r))
       \<and> answer (fst (normalizeQuestion textarea random k r index)) =
           decodeHtmlEntities textarea (correct_answer r)
       \<and> answer (fst (normalizeQuestion textarea random k r index))
           \<in> set (options (fst (normalizeQuestion textarea random k r index)))"
  using mset_shuffleArray [OF assms] normalizeQuestion_options [OF assms] by blast

theorem options_permutation_witness:
  "unit_interval sample_random
   \<and> options (fst (normalizeQuestion (\<lambda>t. t) sample_random 0 (sample_record ''7'') 7))
       = [''right7'', ''false7'', ''wrong7'', ''bad7'']
   \<and> answer (fst (normalizeQuestion (\<lambda>t. t) sample_random 0 (sample_record ''7'') 7))
       \<in> set (options (fst (normalizeQuestion (\<lambda>t. t) sample_random 0 (sample_record ''7'') 7)))"
proof -
  have unit: "unit_interval sample_random"
    by (simp add: unit_interval_def sample_random_def)
  have opts: "options (fst (normalizeQuestion (\<lambda>t. t) sample_random 0 (sample_record ''7'') 7))
                = [''right7'', ''false7'', ''wrong7'', ''bad7'']"
    by code_simp
  show ?thesis
    using unit opts options_permutation [OF unit, of 0 "[]::string list" "\<lambda>t. t" "sample_record ''7''" 7]
    by blast
qed

lemma length_shuffle_loop: "length (fst (shuffle_loop random k i xs)) = length xs"
  by (induction i arbitrary: k xs) (simp_all add: Let_def)

lemma length_map_results: "length (map_results textarea random k index rs) = length rs"
  by (induction rs arbitrary: k index) (simp_all split: prod.splits)

lemma map_results_nth:
  "i < length rs \<Longrightarrow>
   \<exists>k'. map_results textarea random k index rs ! i =
           fst (normalizeQuestion textarea random k' (rs ! i) (index + i))"
proof (induction rs arbitrary: k index i)
  case Nil
  then show ?case by simp
next
  case (Cons r rs)
  show ?case
  proof (cases i)
    case 0
    then show ?thesis
      by (auto split: prod.splits intro: exI [of _ k])
  next
    case (Suc n)
    with Cons.prems have "n < length rs" by simp
    from Cons.IH [OF this, of "snd (normalizeQuestion textarea random k r index)" "Suc index"]
    show ?thesis using Suc by (auto split: prod.splits)
  qed
qed

section \<open>What the fetch returns and when it throws\<close>

lemma read_results_Returns:
  "read_results items = Returns rs \<Longrightarrow>
   length rs = length items \<and> (\<forall>i < length items. read_question (items ! i) = Returns (rs ! i))"
proof (induction items arbitrary: rs)
  case Nil
  then show ?case by simp
next
  case (Cons v vs)
  from Cons.prems obtain r rs' where r: "read_question v = Returns r"
    and rs': "read_results vs = Returns rs'" and rs: "rs = r # rs'"
    by (auto split: outcome.splits)
  from Cons.IH [OF rs'] r show ?case
    by (auto simp: rs nth_Cons split: nat.splits)
qed


lemma read_question_Throws:
  "(\<exists>e. read_question v = Throws e) \<longleftrightarrow>
     v = VNull
     \<or> ((\<exists>q. member v ''question'' = Some (VString q))
        \<and> (\<exists>c. member v ''correct_answer'' = Some (VString c))
        \<and> (\<forall>ws. member v ''incorrect_answers'' \<noteq> Some (VArray ws)))"
  by (cases v) (auto split: option.splits js_value.splits)

text \<open>
  A load that returns has passed every test of the \<^verbatim>\<open>try\<close> block: the response is
  \<^verbatim>\<open>ok\<close>, its body is an object whose \<^verbatim>\<open>response_code\<close> is 0 and whose
  \<^verbatim>\<open>results\<close> is an array, each element of which was read as a record.
\<close>

lemma fetch_Returns:
  assumes "fetchQuizQuestions fetch textarea random level = Returns qs"
  shows "\<exists>response body items rs.
           fetch (request_url level) = Inr response \<and> ok response \<and>
           json response = Inr (VObject body) \<and>
           map_of body ''response_code'' = Some (VNumber 0) \<and>
           map_of body ''results'' = Some (VArray items) \<and>
           read_results items = Returns rs \<and>
           qs = map_results textarea random 0 0 rs"
proof -
  from assms obtain response data where r: "fetch (request_url level) = Inr response"
    "ok response" "json response = Inr data" "data \<noteq> VNull"
    "member data ''response_code'' = Some (VNumber 0)"
    by (auto simp: fetchQuizQuestions_def split: sum.splits if_splits)
  from r(5) obtain body where body: "data = VObject body" by (cases data) auto
  from assms r obtain items where items: "member data ''results'' = Some (VArray items)"
    by (auto simp: fetchQuizQuestions_def split: option.splits js_value.splits)
  from assms r items obtain rs where rs: "read_results items = Returns rs"
    "qs = map_results textarea random 0 0 rs"
    by (auto simp: fetchQuizQuestions_def split: outcome.splits)
  from r body items rs show ?thesis by auto
qed

text \<open>
  The correct answer is among the options once more than its decoded text is among the
  decoded incorrect answers of the record.
\<close>

lemma count_list_options:
  assumes "unit_interval random"
  shows "count_list (options (fst (normalizeQuestion textarea random k r index)))
             (answer (fst (normalizeQuestion textarea random k r index)))
         = 1 + count_list (map (decodeHtmlEntities textarea) (incorrect_answers r))
                 (decodeHtmlEntities textarea (correct_answer r))"
proof -
  let ?q = "fst (normalizeQuestion textarea random k r index)"
  have "count_list (options ?q) (answer ?q) = count (mset (options ?q)) (answer ?q)"
    by (simp add: count_mset)
  also have "\<dots> = count (mset (decodeHtmlEntities textarea (correct_answer r)
                 # map (decodeHtmlEntities textarea) (incorrect_answers r)))
                 (decodeHtmlEntities textarea (correct_answer r))"
    using normalizeQuestion_options(1,2) [OF assms, of textarea k r index] by simp
  also have "\<dots> = count_list (decodeHtmlEntities textarea (correct_answer r)
                 # map (decodeHtmlEntities textarea) (incorrect_answers r))
                 (decodeHtmlEntities textarea (correct_answer r))"
    by (simp only: count_mset)
  also have "\<dots> = 1 + count_list (map (decodeHtmlEntities textarea) (incorrect_answers r))
                 (decodeHtmlEntities textarea (correct_answer r))"
    by simp
  finally show ?thesis .
qed

text \<open>
  C6, as stated, fails: nothing in \<open>fetchQuizQuestions\<close> counts the records. A response
  with code 0 and 3 records is a successful load, and it produces 3 questions, not 10.
\<close>

theorem load_counterexample:
  "fetchQuizQuestions (sample_fetch (Inr (sample_body 3))) sample_textarea sample_random hard =
     Returns
       [\<lparr> qid = ''question-0'', question = ''Q0'',
           options = [''right0'', ''false0'', ''wrong0'', ''bad0''], answer = ''right0'',
           category = Some ''General'', qdifficulty = Some ''easy'', qtype = Some ''multiple'' \<rparr>,
        \<lparr> qid = ''question-1'', question = ''Q1'',
           options = [''right1'', ''false1'', ''wrong1'', ''bad1''], answer = ''right1'',
           category = Some ''General'', qdifficulty = Some ''easy'', qtype = Some ''multiple'' \<rparr>,
        \<lparr> qid = ''question-2'', question = ''Q2'',
           options = [''right2'', ''false2'', ''wrong2'', ''bad2''], answer = ''right2'',
           category = Some ''General'', qdifficulty = Some ''easy'', qtype = Some ''multiple'' \<rparr>]"
  by code_simp

text \<open>
  C6, amended. For every difficulty the load asks the service for 10 questions: the URL
  is the base URL with \<^verbatim>\<open>?amount=10&difficulty=\<close> and the difficulty. A successful load
  produces one question for each record of the response, as many as the service sent,
  in their order. Each has a non-empty list of options that contains its correct
  answer; the answer is there once more than its decoded text is among the decoded
  incorrect answers of the record, so exactly once when the decoded texts of the record
  are distinct.
\<close>

theorem successful_load:
  assumes "unit_interval random"
    and "fetchQuizQuestions fetch textarea random level = Returns qs"
  shows "request_url level = ''https://opentdb.com/api.php?amount=10&difficulty='' @ difficulty_text level
       \<and> (\<exists>response body items rs.
             fetch (request_url level) = Inr response \<and> ok response \<and>
             json response = Inr (VObject body) \<and>
             map_of body ''response_code'' = Some (VNumber 0) \<and>
             map_of body ''results'' = Some (VArray items) \<and>
             read_results items = Returns rs \<and>
             length qs = length items \<and>
             (\<forall>i < length qs.
                read_question (items ! i) = Returns (rs ! i) \<and>
                options (qs ! i) \<noteq> [] \<and>
                answer (qs ! i) \<in> set (options (qs ! i)) \<and>
                count_list (options (qs ! i)) (answer (qs ! i)) =
                  1 + count_list (map (decodeHtmlEntities textarea) (incorrect_answers (rs ! i)))
                        (decodeHtmlEntities textarea (correct_answer (rs ! i))) \<and>
                (distinct (map (decodeHtmlEntities textarea)
                             (correct_answer (rs ! i) # incorrect_answers (rs ! i))) \<longrightarrow>
                   count_list (options (qs ! i)) (answer (qs ! i)) = 1)))"
proof -
  from fetch_Returns [OF assms(2)] obtain response body items rs where
    got: "fetch (request_url level) = Inr response" "ok response"
      "json response = Inr (VObject body)"
      "map_of body ''response_code'' = Some (VNumber 0)"
      "map_of body ''results'' = Some (VArray items)"
      "read_results items = Returns rs"
    and qs: "qs = map_results textarea random 0 0 rs"
    by blast
  from read_results_Returns [OF got(6)] have len: "length rs = length items"
    and each: "\<forall>i < length items. read_question (items ! i) = Returns (rs ! i)" by simp_all
  have lenq: "length qs = length items" by (simp add: qs length_map_results len)
  have every: "read_question (items ! i) = Returns (rs ! i) \<and>
         options (qs ! i) \<noteq> [] \<and> answer (qs ! i) \<in> set (options (qs ! i)) \<and>
         count_list (options (qs ! i)) (answer (qs ! i)) =
           1 + count_list (map (decodeHtmlEntities textarea) (incorrect_answers (rs ! i)))
                 (decodeHtmlEntities textarea (correct_answer (rs ! i))) \<and>
         (distinct (map (decodeHtmlEntities textarea)
                      (correct_answer (rs ! i) # incorrect_answers (rs ! i))) \<longrightarrow>
            count_list (options (qs ! i)) (answer (qs ! i)) = 1)"
    if i: "i < length qs" for i
  proof -
    from i lenq len have ir: "i < length rs" by simp
    from map_results_nth [OF ir, of textarea random 0 0]
    obtain k where q: "qs ! i = fst (normalizeQuestion textarea random k (rs ! i) i)"
      by (auto simp: qs)
    have mem: "answer (qs ! i) \<in> set (options (qs ! i))"
      unfolding q using assms(1) by (rule normalizeQuestion_options)
    then have ne: "options (qs ! i) \<noteq> []" by auto
    have cnt: "count_list (options (qs ! i)) (answer (qs ! i)) =
           1 + count_list (map (decodeHtmlEntities textarea) (incorrect_answers (rs ! i)))
                 (decodeHtmlEntities textarea (correct_answer (rs ! i)))"
      unfolding q using assms(1) by (rule count_list_options)
    have once: "count_list (options (qs ! i)) (answer (qs ! i)) = 1"
      if "distinct (map (decodeHtmlEntities textarea)
                     (correct_answer (rs ! i) # incorrect_answers (rs ! i)))"
    proof -
      from that have "decodeHtmlEntities textarea (correct_answer (rs ! i))
                        \<notin> set (map (decodeHtmlEntities textarea) (incorrect_answers (rs ! i)))"
        by simp
      then have "count_list (map (decodeHtmlEntities textarea) (incorrect_answers (rs ! i)))
                   (decodeHtmlEntities textarea (correct_answer (rs ! i))) = 0"
        by (simp add: count_list_0_iff del: set_map)
      with cnt show ?thesis by simp
    qed
    from i lenq each have "read_question (items ! i) = Returns (rs ! i)" by simp
    with mem ne cnt once show ?thesis by blast
  qed
  have url: "request_url level = ''https://opentdb.com/api.php?amount=10&difficulty='' @ difficulty_text level"
    by (simp add: request_url_def API_BASE_URL_def)
  from url got lenq every show ?thesis by blast
qed

theorem successful_load_witness:
  "unit_interval sample_random
   \<and> (\<exists>qs. fetchQuizQuestions (sample_fetch (Inr (sample_body 10))) sample_textarea sample_random hard
               = Returns qs
             \<and> length qs = 10
             \<and> list_all (\<lambda>q. options q \<noteq> [] \<and> count_list (options q) (answer q) = 1) qs)"
proof -
  define qs where "qs = map_results sample_textarea sample_random 0 0
                          (map (\<lambda>n. sample_record (number_text n)) [0..<10])"
  have unit: "unit_interval sample_random"
    by (simp add: unit_interval_def sample_random_def)
  have load: "fetchQuizQuestions (sample_fetch (Inr (sample_body 10))) sample_textarea sample_random hard
                = Returns qs"
    unfolding qs_def by code_simp
  have len: "length qs = 10"
    unfolding qs_def by (simp add: length_map_results)
  have once: "list_all (\<lambda>q. count_list (options q) (answer q) = 1) qs"
    unfolding qs_def by code_simp
  from successful_load [OF unit load] len
  have "\<forall>i < 10. options (qs ! i) \<noteq> []" by auto
  with len have "list_all (\<lambda>q. options q \<noteq> []) qs"
    by (simp add: list_all_length)
  with once have "list_all (\<lambda>q. options q \<noteq> [] \<and> count_list (options q) (answer q) = 1) qs"
    by (simp add: list_all_iff)
  with unit load len show ?thesis by blast
qed




section \<open>Printing and reading numbers\<close>

lemma is_digit_char_of: "n < 10 \<Longrightarrow> is_digit (char_of (48 + (n::nat)))"
  by (simp add: is_digit_def)

lemma number_text_digits: "list_all is_digit (number_text n)"
proof (induction n rule: number_text.induct)
  case (1 n)
  show ?case
  proof (cases "n < 10")
    case True
    then show ?thesis by (subst number_text.simps) (simp add: is_digit_char_of)
  next
    case False
    then have "n mod 10 < 10" by simp
    with False "1.IH" show ?thesis
      by (subst number_text.simps) (simp add: is_digit_char_of)
  qed
qed

lemma number_text_nonempty: "number_text n \<noteq> []"
  by (subst number_text.simps) simp

lemma char_of_48: "char_of (48::nat) = CHR ''0''"
  by code_simp

lemma of_char_digit: "n < 10 \<Longrightarrow> of_char (char_of (48 + n)) = 48 + (n::nat)"
  by simp

lemma char_of_48_eq_0:
  assumes "n < 10"
  shows "char_of (48 + n) = CHR ''0'' \<longleftrightarrow> n = (0::nat)"
proof
  assume "char_of (48 + n) = CHR ''0''"
  then have "of_char (char_of (48 + n)) = (of_char (CHR ''0'') :: nat)" by simp
  with assms show "n = 0" by (simp only: of_char_digit) simp
next
  assume "n = 0"
  then show "char_of (48 + n) = CHR ''0''" by (simp add: char_of_48)
qed

lemma number_text_hd: "0 < n \<Longrightarrow> hd (number_text n) \<noteq> CHR ''0''"
proof (induction n rule: number_text.induct)
  case (1 n)
  show ?case
  proof (cases "n < 10")
    case True
    with "1.prems" show ?thesis
      by (subst number_text.simps) (simp add: char_of_48_eq_0)
  next
    case False
    then have "0 < n div 10" by simp
    with "1.IH" False have "hd (number_text (n div 10)) \<noteq> CHR ''0''" by simp
    with False show ?thesis
      by (subst number_text.simps) (simp add: number_text_nonempty)
  qed
qed

lemma number_text_0: "number_text 0 = ''0''"
  by (subst number_text.simps) (simp add: char_of_48)

lemma digits_value_snoc: "digits_value (ds @ [c]) = 10 * digits_value ds + (of_char c - 48)"
  by (simp add: digits_value_def)

lemma digits_value_number_text: "digits_value (number_text n) = n"
proof (induction n rule: number_text.induct)
  case (1 n)
  show ?case
  proof (cases "n < 10")
    case True
    then show ?thesis
      by (subst number_text.simps) (simp add: digits_value_def)
  next
    case False
    then have "n mod 10 < 10" by simp
    then have "of_char (char_of (48 + n mod 10)) - 48 = n mod 10"
      by (simp only: of_char_digit)
    moreover from "1.IH" False have "digits_value (number_text (n div 10)) = n div 10" by simp
    ultimately show ?thesis
      using False by (subst number_text.simps) (simp add: digits_value_snoc)
  qed
qed

lemma as_integer_int_text: "safe_integer n \<Longrightarrow> as_integer (int_text n) = Some n"
proof (cases "n < 0")
  case True
  moreover assume "safe_integer n"
  ultimately show ?thesis
    by (simp add: as_integer_def int_text_def number_text_digits number_text_nonempty
        digits_value_number_text)
next
  case False
  assume safe: "safe_integer n"
  obtain c cs where cs: "number_text (nat n) = c # cs"
    using number_text_nonempty [of "nat n"] by (cases "number_text (nat n)") auto
  have "is_digit c" using number_text_digits [of "nat n"] by (simp add: cs)
  then have "c \<noteq> CHR ''-''" by (auto simp: is_digit_def)
  then show ?thesis
    using False safe number_text_digits [of "nat n"] digits_value_number_text [of "nat n"]
    by (simp add: as_integer_def int_text_def cs)
qed

lemma as_integer_safe: "as_integer lexeme = Some n \<Longrightarrow> safe_integer n"
  by (auto simp: as_integer_def split: list.splits if_splits)

section \<open>Printing and reading strings\<close>

lemma hex_letters: "map char_of [97, 98, 99, 100, 101, 102 :: nat] = ''abcdef''"
  by code_simp

lemma hex_digit_cases:
  assumes "k < 16"
  shows "is_hex (hex_digit k) \<and> hex_value (hex_digit k) = k"
proof (cases "k < 10")
  case True
  then have "is_digit (hex_digit k)" and "of_char (hex_digit k) = 48 + k"
    by (simp_all add: hex_digit_def is_digit_def)
  then show ?thesis by (simp add: is_hex_def hex_value_def)
next
  case False
  with assms have "k \<in> {10, 11, 12, 13, 14, 15}" by auto
  then show ?thesis
    using hex_letters
    by (auto simp: hex_digit_def is_hex_def hex_value_def is_digit_def)
qed

lemma lex_string_quote_char:
  "lex_string (quote_char c @ t) =
     (case lex_string t of None \<Rightarrow> None | Some (raw, rest) \<Rightarrow> Some (quote_char c @ raw, rest))"
proof (cases "(of_char c :: nat) < 32")
  case False
  then show ?thesis
    by (auto simp: quote_char_def split: option.splits)
next
  case True
  then have "(of_char c :: nat) div 16 < 16" "(of_char c :: nat) mod 16 < 16" by simp_all
  then have "is_hex (hex_digit (of_char c div 16))" "is_hex (hex_digit (of_char c mod 16))"
    by (simp_all add: hex_digit_cases)
  moreover have "is_hex CHR ''0''" by (simp add: is_hex_def is_digit_def)
  ultimately show ?thesis
    using True by (auto simp: quote_char_def split: option.splits)
qed

lemma lex_string_quoted:
  "lex_string (concat (map quote_char s) @ CHR 0x22 # rest) = Some (concat (map quote_char s), rest)"
  by (induction s) (simp_all add: lex_string_quote_char)

lemma unescape_quote_char:
  "unescape (quote_char c @ t) = map_option ((#) c) (unescape t)"
proof (cases "(of_char c :: nat) < 32")
  case False
  then show ?thesis
    by (auto simp: quote_char_def)
next
  case True
  let ?n = "of_char c :: nat"
  from True have lt: "?n div 16 < 16" "?n mod 16 < 16" by simp_all
  have hex: "is_hex (hex_digit (?n div 16))" "is_hex (hex_digit (?n mod 16))"
    "hex_value (hex_digit (?n div 16)) = ?n div 16" "hex_value (hex_digit (?n mod 16)) = ?n mod 16"
    using lt by (simp_all add: hex_digit_cases)
  have zero: "is_hex CHR ''0''" "hex_value CHR ''0'' = 0"
    by (simp_all add: is_hex_def is_digit_def hex_value_def)
  have val: "hex4_value [CHR ''0'', CHR ''0'', hex_digit (?n div 16), hex_digit (?n mod 16)] = ?n"
    by (simp add: hex4_value_def hex zero)
  have small: "?n < 256" using True by simp
  show ?thesis
    using True hex zero val small
    by (auto simp: quote_char_def)
qed

lemma unescape_quoted: "unescape (concat (map quote_char s)) = Some s"
  by (induction s) (simp_all add: unescape_quote_char)

section \<open>Parsing what \<open>JSON_stringify\<close> writes\<close>

lemma closes_not_digit: "closes (c # rest) \<Longrightarrow> \<not> is_digit c"
  by (auto simp: closes_def is_digit_def)

lemma lex_digits_closes:
  assumes "ds \<noteq> []" "list_all is_digit ds" "closes rest"
  shows "lex_digits (ds @ rest) = Some (ds, rest)"
proof (cases rest)
  case Nil
  have "takeWhile is_digit ds = ds" "dropWhile is_digit ds = []"
    using assms(2) by (simp_all add: list_all_iff)
  then show ?thesis using assms(1) Nil by (simp add: lex_digits_def del: takeWhile_eq_all_conv)
next
  case (Cons c rest')
  have all: "\<And>x. x \<in> set ds \<Longrightarrow> is_digit x" using assms(2) by (simp add: list_all_iff)
  have c: "\<not> is_digit c" using assms(3) Cons closes_not_digit by blast
  have "takeWhile is_digit (ds @ c # rest') = ds"
    using all c by (simp add: takeWhile_append2)
  moreover have "dropWhile is_digit (ds @ c # rest') = c # rest'"
    using all c by (simp add: dropWhile_append2)
  ultimately show ?thesis using assms(1) Cons by (simp add: lex_digits_def)
qed

lemma lex_frac_closes: "closes rest \<Longrightarrow> lex_frac rest = Some ([], rest)"
  by (auto simp: lex_frac_def closes_def split: list.splits)

lemma lex_exp_closes: "closes rest \<Longrightarrow> lex_exp rest = Some ([], rest)"
  by (auto simp: lex_exp_def closes_def split: list.splits)

lemma lex_int_number_text:
  assumes "closes rest"
  shows "lex_int (number_text m @ rest) = Some (number_text m, rest)"
proof (cases "m = 0")
  case True
  then show ?thesis by (simp add: number_text_0 lex_int_def)
next
  case False
  obtain c cs where cs: "number_text m = c # cs"
    using number_text_nonempty [of m] by (cases "number_text m") auto
  from False have "c \<noteq> CHR ''0''" using number_text_hd [of m] by (simp add: cs)
  moreover have "lex_digits (number_text m @ rest) = Some (number_text m, rest)"
    using number_text_nonempty number_text_digits assms by (rule lex_digits_closes)
  ultimately show ?thesis by (simp add: lex_int_def cs)
qed

lemma lex_number_int_text:
  assumes "closes rest"
  shows "lex_number (int_text n @ rest) = Some (int_text n, rest)"
proof (cases "n < 0")
  case True
  then show ?thesis
    using assms
    by (simp add: lex_number_def int_text_def lex_int_number_text lex_frac_closes lex_exp_closes)
next
  case False
  obtain c cs where cs: "number_text (nat n) = c # cs"
    using number_text_nonempty [of "nat n"] by (cases "number_text (nat n)") auto
  have "is_digit c" using number_text_digits [of "nat n"] by (simp add: cs)
  then have c: "c \<noteq> CHR ''-''" by (auto simp: is_digit_def)
  have "lex_int (c # cs @ rest) = Some (c # cs, rest)"
    using lex_int_number_text [OF assms, of "nat n"] by (simp add: cs)
  then show ?thesis
    using False c assms
    by (simp add: lex_number_def int_text_def cs lex_frac_closes lex_exp_closes)
qed

lemma int_text_first:
  "\<exists>c cs. int_text n = c # cs \<and> (c = CHR ''-'' \<or> is_digit c) \<and> \<not> is_ws c
      \<and> c \<noteq> CHR ''['' \<and> c \<noteq> CHR ''{'' \<and> c \<noteq> CHR 0x22 \<and> c \<noteq> CHR '']'' \<and> c \<noteq> CHR ''}''"
proof (cases "n < 0")
  case True
  then show ?thesis by (simp add: int_text_def is_ws_def)
next
  case False
  obtain c cs where cs: "number_text (nat n) = c # cs"
    using number_text_nonempty [of "nat n"] by (cases "number_text (nat n)") auto
  have "is_digit c" using number_text_digits [of "nat n"] by (simp add: cs)
  then show ?thesis using False by (auto simp: int_text_def cs is_digit_def is_ws_def)
qed

lemma parse_value_int_text:
  assumes "closes rest"
  shows "parse_value (int_text n @ rest) = Some (JNumber (int_text n), rest)"
proof -
  obtain c cs where cs: "int_text n = c # cs" and c: "c = CHR ''-'' \<or> is_digit c"
    "c \<noteq> CHR ''[''" "c \<noteq> CHR ''{''" "c \<noteq> CHR 0x22"
    using int_text_first [of n] by blast
  have "lex_number (c # cs @ rest) = Some (c # cs, rest)"
    using lex_number_int_text [OF assms, of n] by (simp add: cs)
  then show ?thesis using c by (simp add: cs parse_value.simps)
qed

lemma parse_value_quote_text:
  "parse_value (quote_text s @ rest) = Some (JString (concat (map quote_char s)), rest)"
  by (simp add: quote_text_def parse_value.simps lex_string_quoted)

lemma parse_value_literal:
  "parse_value (''null'' @ rest) = Some (JNull, rest)"
  "parse_value (''true'' @ rest) = Some (JBool True, rest)"
  "parse_value (''false'' @ rest) = Some (JBool False, rest)"
  by (simp_all add: parse_value.simps is_digit_def lex_literal_def)

lemma skip_ws_head: "\<not> is_ws c \<Longrightarrow> skip_ws (c # s) = c # s"
  by (simp add: skip_ws_def)

text \<open>The first character of a written value is no white space and closes nothing.\<close>

lemma JSON_stringify_first:
  "\<exists>c t. JSON_stringify v = c # t \<and> \<not> is_ws c \<and> c \<noteq> CHR '']'' \<and> c \<noteq> CHR ''}''"
proof (cases v)
  case (VNumber n)
  then show ?thesis using int_text_first [of n] by auto
qed (auto simp: is_ws_def quote_text_def)

lemma skip_ws_JSON_stringify: "skip_ws (JSON_stringify v @ t) = JSON_stringify v @ t"
  using JSON_stringify_first [of v] by (auto simp: skip_ws_head)

lemma stringify_elements_first:
  "vs \<noteq> [] \<Longrightarrow> \<exists>c t. stringify_elements vs = c # t \<and> \<not> is_ws c \<and> c \<noteq> CHR '']''"
proof (cases vs)
  case Nil
  moreover assume "vs \<noteq> []"
  ultimately show ?thesis by simp
next
  case (Cons v vs')
  obtain c t where "JSON_stringify v = c # t" "\<not> is_ws c" "c \<noteq> CHR '']''"
    using JSON_stringify_first [of v] by blast
  then show ?thesis using Cons by (cases vs') auto
qed

lemma stringify_members_first:
  "ms \<noteq> [] \<Longrightarrow> \<exists>t. stringify_members ms = CHR 0x22 # t"
proof (cases ms)
  case Nil
  moreover assume "ms \<noteq> []"
  ultimately show ?thesis by simp
next
  case (Cons m ms')
  then show ?thesis by (cases m; cases ms') (auto simp: quote_text_def)
qed

lemma parse_array_text:
  assumes "vs \<noteq> [] \<Longrightarrow> parse_elements (stringify_elements vs @ CHR '']'' # rest) = Some (trees_of vs, rest)"
  shows "parse_value (JSON_stringify (VArray vs) @ rest) = Some (JArray (trees_of vs), rest)"
proof (cases "vs = []")
  case True
  then show ?thesis by (simp add: parse_value.simps skip_ws_head is_ws_def)
next
  case False
  obtain c t where ct: "stringify_elements vs = c # t" "\<not> is_ws c" "c \<noteq> CHR '']''"
    using stringify_elements_first [OF False] by blast
  have "parse_elements (c # t @ CHR '']'' # rest) = Some (trees_of vs, rest)"
    using assms [OF False] by (simp add: ct)
  then show ?thesis using ct by (simp add: parse_value.simps skip_ws_head)
qed

lemma parse_object_text:
  assumes "ms \<noteq> [] \<Longrightarrow> parse_members (stringify_members ms @ CHR ''}'' # rest) = Some (member_trees_of ms, rest)"
  shows "parse_value (JSON_stringify (VObject ms) @ rest) = Some (JObject (member_trees_of ms), rest)"
proof (cases "ms = []")
  case True
  then show ?thesis by (simp add: parse_value.simps skip_ws_head is_ws_def)
next
  case False
  obtain t where ct: "stringify_members ms = CHR 0x22 # t"
    using stringify_members_first [OF False] by blast
  have "parse_members (CHR 0x22 # t @ CHR ''}'' # rest) = Some (member_trees_of ms, rest)"
    using assms [OF False] by (simp add: ct)
  then show ?thesis using ct by (simp add: parse_value.simps skip_ws_head is_ws_def)
qed

lemma parse_elements_last:
  assumes "parse_value (JSON_stringify v @ CHR '']'' # rest) = Some (tree_of v, CHR '']'' # rest)"
  shows "parse_elements (JSON_stringify v @ CHR '']'' # rest) = Some ([tree_of v], rest)"
  by (subst parse_elements.simps) (simp add: skip_ws_JSON_stringify assms skip_ws_head is_ws_def)

lemma parse_elements_more:
  assumes "parse_value (JSON_stringify v @ CHR '','' # text) = Some (tree_of v, CHR '','' # text)"
    and "parse_elements text = Some (ts, rest)"
  shows "parse_elements (JSON_stringify v @ CHR '','' # text) = Some (tree_of v # ts, rest)"
  by (subst parse_elements.simps) (simp add: skip_ws_JSON_stringify assms skip_ws_head is_ws_def)

lemma skip_ws_quote_text: "skip_ws (quote_text s @ t) = CHR 0x22 # concat (map quote_char s) @ CHR 0x22 # t"
  by (simp add: quote_text_def skip_ws_def is_ws_def)

lemma parse_members_last:
  assumes "parse_value (JSON_stringify v @ CHR ''}'' # rest) = Some (tree_of v, CHR ''}'' # rest)"
  shows "parse_members (quote_text key @ CHR '':'' # JSON_stringify v @ CHR ''}'' # rest)
           = Some ([(concat (map quote_char key), tree_of v)], rest)"
  by (subst parse_members.simps)
     (simp add: skip_ws_quote_text lex_string_quoted skip_ws_JSON_stringify assms skip_ws_head
        is_ws_def quote_text_def)

lemma parse_members_more:
  assumes "parse_value (JSON_stringify v @ CHR '','' # text) = Some (tree_of v, CHR '','' # text)"
    and "parse_members text = Some (ts, rest)"
  shows "parse_members (quote_text key @ CHR '':'' # JSON_stringify v @ CHR '','' # text)
           = Some ((concat (map quote_char key), tree_of v) # ts, rest)"
  by (subst parse_members.simps)
     (simp add: skip_ws_quote_text lex_string_quoted skip_ws_JSON_stringify assms skip_ws_head
        is_ws_def quote_text_def)

lemma closes_simps: "closes []" "closes (CHR '','' # t)" "closes (CHR '']'' # t)" "closes (CHR ''}'' # t)"
  by (simp_all add: closes_def)

lemma parse_stringify:
  "closes rest \<Longrightarrow> parse_value (JSON_stringify v @ rest) = Some (tree_of v, rest)"
  "vs \<noteq> [] \<Longrightarrow> parse_elements (stringify_elements vs @ CHR '']'' # rest) = Some (trees_of vs, rest)"
  "ms \<noteq> [] \<Longrightarrow> parse_members (stringify_members ms @ CHR ''}'' # rest) = Some (member_trees_of ms, rest)"
proof (induction v and vs and ms arbitrary: rest and rest and rest
       rule: JSON_stringify_stringify_elements_stringify_members.induct)
  case 1
  show ?case using parse_value_literal(1) [of rest] by simp
next
  case (2 b)
  show ?case using parse_value_literal(2,3) [of rest] by simp
next
  case (3 n)
  then show ?case by (simp add: parse_value_int_text)
next
  case (4 s)
  show ?case by (simp add: parse_value_quote_text)
next
  case (5 vs)
  have "parse_value (JSON_stringify (VArray vs) @ rest) = Some (JArray (trees_of vs), rest)"
    by (rule parse_array_text) (rule 5(1))
  then show ?case by simp
next
  case (6 ms)
  have "parse_value (JSON_stringify (VObject ms) @ rest) = Some (JObject (member_trees_of ms), rest)"
    by (rule parse_object_text) (rule 6(1))
  then show ?case by simp
next
  case 7
  then show ?case by simp
next
  case (8 v)
  have "parse_elements (JSON_stringify v @ CHR '']'' # rest) = Some ([tree_of v], rest)"
    by (rule parse_elements_last) (rule 8(1), rule closes_simps)
  then show ?case by simp
next
  case (9 v va vs)
  have "parse_elements (JSON_stringify v @ CHR '','' # stringify_elements (va # vs) @ CHR '']'' # rest)
          = Some (tree_of v # trees_of (va # vs), rest)"
    by (rule parse_elements_more) (rule 9(1), rule closes_simps, rule 9(2), simp)
  then show ?case by simp
next
  case 10
  then show ?case by simp
next
  case (11 key v)
  have "parse_members (quote_text key @ CHR '':'' # JSON_stringify v @ CHR ''}'' # rest)
           = Some ([(concat (map quote_char key), tree_of v)], rest)"
    by (rule parse_members_last) (rule 11(1), rule closes_simps)
  then show ?case by simp
next
  case (12 key v vb ms)
  have "parse_members (quote_text key @ CHR '':'' # JSON_stringify v @ CHR '','' #
                       stringify_members (vb # ms) @ CHR ''}'' # rest)
           = Some ((concat (map quote_char key), tree_of v) # member_trees_of (vb # ms), rest)"
    by (rule parse_members_more) (rule 12(1), rule closes_simps, rule 12(2), simp)
  then show ?case by simp
qed

lemma JSON_parse_stringify: "JSON_parse (JSON_stringify v) = Inr (tree_of v)"
proof -
  have "skip_ws (JSON_stringify v) = JSON_stringify v"
    using skip_ws_JSON_stringify [of v "[]"] by simp
  moreover have "parse_value (JSON_stringify v) = Some (tree_of v, [])"
    using parse_stringify(1) [of "[]" v] by (simp add: closes_simps)
  ultimately show ?thesis by (simp add: JSON_parse_def skip_ws_def)
qed

lemma JSON_stringify_nonempty: "JSON_stringify v \<noteq> []"
  using JSON_stringify_first [of v] by auto

section \<open>The length tests of the parser\<close>

lemma lex_string_rest: "lex_string s = Some (raw, rest) \<Longrightarrow> length rest < length s"
proof (induction s arbitrary: raw rest rule: lex_string.induct)
  case 1
  then show ?case by simp
next
  case (2 c cs)
  then show ?case
    by (fastforce split: if_splits list.splits option.splits)
qed

lemma lex_digits_rest: "lex_digits s = Some (ds, rest) \<Longrightarrow> length rest < length s"
proof -
  assume a: "lex_digits s = Some (ds, rest)"
  then have "takeWhile is_digit s \<noteq> []" "rest = dropWhile is_digit s"
    by (auto simp: lex_digits_def split: if_splits)
  moreover have "length (takeWhile is_digit s) + length (dropWhile is_digit s) = length s"
    by (metis length_append takeWhile_dropWhile_id)
  ultimately show ?thesis by (cases "takeWhile is_digit s") auto
qed

lemma lex_number_rest: "lex_number s = Some (lexeme, rest) \<Longrightarrow> length rest < length s"
  by (auto simp: lex_number_def lex_int_def lex_frac_def lex_exp_def Let_def
      split: list.splits if_splits option.splits prod.splits dest!: lex_digits_rest)

lemma lex_literal_rest: "lex_literal s = Some (v, rest) \<Longrightarrow> length rest < length s"
  by (cases s) (auto simp: lex_literal_def split: if_splits)

lemma skip_ws_le: "length (skip_ws s) \<le> length s"
  by (simp add: skip_ws_def length_dropWhile_le)

lemma skip_ws_Cons_less: "skip_ws s = c # t \<Longrightarrow> length t < length s"
  using skip_ws_le [of s] by simp

lemma parse_rest:
  "(\<forall>v rest. parse_value s = Some (v, rest) \<longrightarrow> length rest < length s)"
  "(\<forall>vs rest. parse_elements s = Some (vs, rest) \<longrightarrow> length rest < length s)"
  "(\<forall>ms rest. parse_members s = Some (ms, rest) \<longrightarrow> length rest < length s)"
proof (induction s and s and s rule: parse_value_parse_elements_parse_members.induct)
  case 1
  then show ?case by (simp add: parse_value.simps)
next
  case (2 c cs)
  show ?case
  proof (intro allI impI)
    fix v rest
    assume a: "parse_value (c # cs) = Some (v, rest)"
    show "length rest < length (c # cs)"
    proof (cases "c = CHR ''[''")
      case True
      with a show ?thesis
        using 2(1) skip_ws_Cons_less [of cs]
        by (simp add: parse_value.simps split: list.splits if_splits option.splits) fastforce+
    next
      case False
      note nb = this
      show ?thesis
      proof (cases "c = CHR ''{''")
        case True
        with a nb show ?thesis
          using 2(2) skip_ws_Cons_less [of cs]
          by (simp add: parse_value.simps split: list.splits if_splits option.splits) fastforce+
      next
        case False
        with a nb show ?thesis
          using lex_string_rest [of cs] lex_number_rest [of "c # cs"] lex_literal_rest [of "c # cs"]
          by (auto simp: parse_value.simps split: if_splits option.splits)
      qed
    qed
  qed
next
  case (3 s)
  show ?case
  proof (intro allI impI)
    fix vs rest
    assume a: "parse_elements s = Some (vs, rest)"
    then obtain v r1 where v: "parse_value (skip_ws s) = Some (v, r1)"
      by (subst (asm) parse_elements.simps) (auto split: option.splits)
    with 3(1) have r1: "length r1 < length (skip_ws s)" by blast
    from a v obtain d r2 where d: "skip_ws r1 = d # r2"
      by (subst (asm) parse_elements.simps) (auto split: list.splits)
    then have r2: "length r2 < length r1" by (rule skip_ws_Cons_less)
    show "length rest < length s"
    proof (cases "d = CHR '']''")
      case True
      with a v d have "rest = r2" by (subst (asm) parse_elements.simps) simp
      with r1 r2 skip_ws_le [of s] show ?thesis by simp
    next
      case False
      with a v d have c: "d = CHR '',''" "length r2 < length s"
        and "\<exists>vs'. parse_elements r2 = Some (vs', rest)"
        by (subst (asm) parse_elements.simps, auto split: if_splits option.splits)+
      then obtain vs' where "parse_elements r2 = Some (vs', rest)" by blast
      moreover have "\<forall>vs rest. parse_elements r2 = Some (vs, rest) \<longrightarrow> length rest < length r2"
        using 3(2) [OF v refl d False] c by simp
      ultimately show ?thesis using c by fastforce
    qed
  qed
next
  case (4 s)
  show ?case
  proof (intro allI impI)
    fix ms rest
    assume a: "parse_members s = Some (ms, rest)"
    then obtain q s1 where q: "skip_ws s = q # s1" "q = CHR 0x22"
      by (subst (asm) parse_members.simps) (auto split: list.splits if_splits)
    from a q obtain key s2 where k: "lex_string s1 = Some (key, s2)"
      by (subst (asm) parse_members.simps) (auto split: option.splits)
    from a q k obtain colon s3 where c: "skip_ws s2 = colon # s3" "colon = CHR '':''"
      "length s3 < length s"
      by (subst (asm) parse_members.simps) (auto split: list.splits if_splits)
    from a q k c obtain v r1 where v: "parse_value (skip_ws s3) = Some (v, r1)"
      by (subst (asm) parse_members.simps) (auto split: option.splits)
    have "\<forall>v rest. parse_value (skip_ws s3) = Some (v, rest) \<longrightarrow> length rest < length (skip_ws s3)"
      using 4(1) [OF q(1) _ k refl c(1)] q(2) c(2,3) by simp
    with v have r1: "length r1 < length (skip_ws s3)" by blast
    from a q k c v obtain d r2 where d: "skip_ws r1 = d # r2"
      by (subst (asm) parse_members.simps) (auto split: list.splits)
    then have r2: "length r2 < length r1" by (rule skip_ws_Cons_less)
    show "length rest < length s"
    proof (cases "d = CHR ''}''")
      case True
      with a q k c v d have "rest = r2" by (subst (asm) parse_members.simps) simp
      with r1 r2 skip_ws_le [of s3] c(3) show ?thesis by simp
    next
      case False
      with a q k c v d have e: "d = CHR '',''" "length r2 < length s"
        and "\<exists>ms'. parse_members r2 = Some (ms', rest)"
        by (subst (asm) parse_members.simps, auto split: if_splits option.splits)+
      then obtain ms' where "parse_members r2 = Some (ms', rest)" by blast
      moreover have "\<forall>ms rest. parse_members r2 = Some (ms, rest) \<longrightarrow> length rest < length r2"
        using 4(2) [OF q(1) _ k refl c(1) _ v refl d False] q(2) c(2,3) e by simp
      ultimately show ?thesis using e by fastforce
    qed
  qed
qed

text \<open>
  What a parser returns as the rest is shorter than its input, so the length tests in
  \<open>parse_elements\<close> and \<open>parse_members\<close> never fail.
\<close>

lemma parse_guards_hold:
  "parse_value (skip_ws s) = Some (v, rest) \<Longrightarrow> skip_ws rest = d # rest' \<Longrightarrow>
     length rest' < length s"
  "skip_ws s = q # s1 \<Longrightarrow> lex_string s1 = Some (key, s2) \<Longrightarrow> skip_ws s2 = colon # s3 \<Longrightarrow>
     length s3 < length s"
proof -
  assume "parse_value (skip_ws s) = Some (v, rest)" "skip_ws rest = d # rest'"
  then show "length rest' < length s"
    using parse_rest(1) [of "skip_ws s"] skip_ws_le [of s] skip_ws_Cons_less [of rest d rest']
    by fastforce
next
  assume "skip_ws s = q # s1" "lex_string s1 = Some (key, s2)" "skip_ws s2 = colon # s3"
  then show "length s3 < length s"
    using lex_string_rest [of s1 key s2] skip_ws_Cons_less [of s q s1] skip_ws_Cons_less [of s2 colon s3]
    by simp
qed

section \<open>The value of what \<open>JSON_stringify\<close> writes\<close>

lemma fst_member_trees_of:
  "members_of (member_trees_of ms) = Some kvs \<Longrightarrow> map fst kvs = map fst ms"
proof (induction ms arbitrary: kvs)
  case Nil
  then show ?case by simp
next
  case (Cons m ms)
  obtain key v where m: "m = (key, v)" by (cases m)
  from Cons.prems obtain v' kvs' where "members_of (member_trees_of ms) = Some kvs'"
    and "kvs = (key, v') # kvs'"
    by (auto simp: m unescape_quoted split: option.splits)
  with Cons.IH show ?case by (simp add: m)
qed

lemma value_of_tree_of:
  "in_model v \<Longrightarrow> value_of (tree_of v) = Some v"
  "all_in_model vs \<Longrightarrow> values_of (trees_of vs) = Some vs"
  "members_in_model ms \<Longrightarrow> members_of (member_trees_of ms) = Some ms"
proof (induction v and vs and ms rule: in_model_all_in_model_members_in_model.induct)
  case (3 n)
  then show ?case by (simp add: as_integer_int_text)
next
  case (4 s)
  show ?case by (simp add: unescape_quoted)
next
  case (10 key v ms)
  then show ?case by (simp add: unescape_quoted)
qed simp_all

lemma value_of_in_model:
  "value_of t = Some v \<Longrightarrow> in_model v"
  "values_of ts = Some vs \<Longrightarrow> all_in_model vs"
  "members_of ms = Some kvs \<Longrightarrow> members_in_model kvs"
proof (induction t and ts and ms arbitrary: v and vs and kvs
       rule: value_of_values_of_members_of.induct)
  case (3 lexeme)
  then show ?case by (auto simp: as_integer_safe)
next
  case (6 ms)
  then show ?case by (auto split: option.splits if_splits)
next
  case (8 t ts)
  then show ?case by (auto split: option.splits)
next
  case (10 raw t ms)
  then show ?case by (auto split: option.splits)
qed auto

lemma all_in_model_iff: "all_in_model vs \<longleftrightarrow> list_all in_model vs"
  by (induction vs) simp_all

section \<open>Reading and writing the ledger\<close>

lemma getHighScores_written:
  "getHighScores (localStorage(ledger_key \<mapsto> JSON_stringify v)) = Inr (tree_of v)"
  by (simp add: getHighScores_def JSON_stringify_nonempty JSON_parse_stringify)

lemma stored_ledger_written:
  assumes "list_all in_model items" and "list_all (\<lambda>v. score_of v \<noteq> None) items"
  shows "stored_ledger (localStorage(ledger_key \<mapsto> JSON_stringify (VArray items))) = Some items"
proof -
  have "in_model (VArray items)" using assms(1) by (simp add: all_in_model_iff)
  then have "value_of (tree_of (VArray items)) = Some (VArray items)"
    by (rule value_of_tree_of)
  then show ?thesis
    using assms(2)
    by (simp add: stored_ledger_def getHighScores_written del: JSON_stringify.simps tree_of.simps)
qed

lemma stored_ledger_read:
  assumes "stored_ledger localStorage = Some items"
  shows "\<exists>tree. getHighScores localStorage = Inr tree \<and> value_of tree = Some (VArray items)"
    and "list_all in_model items" and "list_all (\<lambda>v. score_of v \<noteq> None) items"
proof -
  from assms obtain tree where tree: "getHighScores localStorage = Inr tree"
    "value_of tree = Some (VArray items)" and scores: "list_all (\<lambda>v. score_of v \<noteq> None) items"
    by (auto simp: stored_ledger_def split: sum.splits option.splits js_value.splits if_splits)
  from tree show "\<exists>tree. getHighScores localStorage = Inr tree \<and> value_of tree = Some (VArray items)"
    by blast
  from value_of_in_model(1) [OF tree(2)] show "list_all in_model items"
    by (simp add: all_in_model_iff)
  from scores show "list_all (\<lambda>v. score_of v \<noteq> None) items" .
qed

lemma newScore_in_model: "exact_counts state \<Longrightarrow> in_model (newScore state now)"
  by (simp add: newScore_def exact_counts_def plain_keys_def integer_key_def is_digit_def)

lemma score_of_newScore: "score_of (newScore state now) = Some (score state)"
  by (simp add: newScore_def score_of_def)

lemma top_scores_in_order:
  "ledger_in_order (take 5 (sort_key (\<lambda>v. - score_key v) items))"
proof -
  have "sorted (map (\<lambda>v. - score_key v) (sort_key (\<lambda>v. - score_key v) items))"
    by (rule sorted_sort_key)
  then have "sorted (take 5 (map (\<lambda>v. - score_key v) (sort_key (\<lambda>v. - score_key v) items)))"
    by (rule sorted_wrt_take)
  then show ?thesis by (simp add: ledger_in_order_def take_map sorted_map)
qed

lemma top_scores_all:
  assumes "list_all P items"
  shows "list_all P (take 5 (sort_key f items))"
proof -
  have "set (take 5 (sort_key f items)) \<subseteq> set items"
    using set_take_subset [of 5 "sort_key f items"] by simp
  with assms show ?thesis by (auto simp: list_all_iff)
qed

lemma saveHighScore_not_completed:
  "\<not> isCompleted state \<Longrightarrow> saveHighScore state now localStorage = Returns localStorage"
  by (simp add: saveHighScore_def)

lemma saveHighScore_completed:
  assumes "isCompleted state" and "exact_counts state"
    and "stored_ledger localStorage = Some items"
  shows "saveHighScore state now localStorage =
           Returns (localStorage(ledger_key \<mapsto>
             JSON_stringify (VArray (take 5 (sort_key (\<lambda>v. - score_key v)
               (items @ [newScore state now]))))))"
proof -
  from stored_ledger_read [OF assms(3)] obtain tree where
    "getHighScores localStorage = Inr tree" "value_of tree = Some (VArray items)"
    "list_all (\<lambda>v. score_of v \<noteq> None) items"
    by blast
  then show ?thesis
    using assms(1,2) by (simp add: saveHighScore_def Let_def score_of_newScore)
qed

lemma saveHighScore_stored:
  assumes "isCompleted state" and "exact_counts state"
    and "stored_ledger localStorage = Some items"
  shows "\<exists>localStorage'. saveHighScore state now localStorage = Returns localStorage'
           \<and> stored_ledger localStorage' =
               Some (take 5 (sort_key (\<lambda>v. - score_key v) (items @ [newScore state now])))"
proof -
  have "list_all in_model (items @ [newScore state now])"
    using stored_ledger_read(2) [OF assms(3)] newScore_in_model [OF assms(2)] by simp
  then have model: "list_all in_model (take 5 (sort_key (\<lambda>v. - score_key v) (items @ [newScore state now])))"
    by (rule top_scores_all)
  have "list_all (\<lambda>v. score_of v \<noteq> None) (items @ [newScore state now])"
    using stored_ledger_read(3) [OF assms(3)] by (simp add: score_of_newScore)
  then have "list_all (\<lambda>v. score_of v \<noteq> None)
               (take 5 (sort_key (\<lambda>v. - score_key v) (items @ [newScore state now])))"
    by (rule top_scores_all)
  with model show ?thesis
    by (simp add: saveHighScore_completed [OF assms] stored_ledger_written
          del: JSON_stringify.simps)
qed

lemma saveHighScore_readable:
  assumes "stored_ledger localStorage = Some items" and "exact_counts state"
  shows "\<exists>localStorage' items'. saveHighScore state now localStorage = Returns localStorage'
           \<and> stored_ledger localStorage' = Some items'
           \<and> (ledger_in_order items \<or> isCompleted state \<longrightarrow> ledger_in_order items')"
proof (cases "isCompleted state")
  case True
  from saveHighScore_stored [OF True assms(2,1), of now] show ?thesis
    by (auto simp: top_scores_in_order)
next
  case False
  then show ?thesis using assms by (simp add: saveHighScore_not_completed)
qed

lemma save_all_invariant:
  assumes "stored_ledger localStorage = Some items"
    and "\<forall>w \<in> set writes. exact_counts (fst w)"
    and "ledger_in_order items \<or> (\<exists>w \<in> set writes. isCompleted (fst w))"
  shows "\<exists>localStorage'. save_all writes localStorage = Some localStorage' \<and> ledger_ok localStorage'"
  using assms
proof (induction writes arbitrary: localStorage items)
  case Nil
  then show ?case by (simp add: ledger_ok_def)
next
  case (Cons w writes)
  obtain state now where w: "w = (state, now)" by (cases w)
  from Cons.prems(2) have exact: "exact_counts state" by (simp add: w)
  from saveHighScore_readable [OF Cons.prems(1) exact, of now]
  obtain localStorage' items' where step: "saveHighScore state now localStorage = Returns localStorage'"
    and read: "stored_ledger localStorage' = Some items'"
    and ord: "ledger_in_order items \<or> isCompleted state \<longrightarrow> ledger_in_order items'"
    by blast
  from Cons.prems(3) ord have "ledger_in_order items' \<or> (\<exists>w \<in> set writes. isCompleted (fst w))"
    by (auto simp: w)
  moreover from Cons.prems(2) have "\<forall>w \<in> set writes. exact_counts (fst w)" by simp
  ultimately have "\<exists>localStorage''. save_all writes localStorage' = Some localStorage''
                      \<and> ledger_ok localStorage''"
    using Cons.IH [OF read] by blast
  then show ?case by (simp add: w step)
qed

text \<open>
  C4. A write for a session that is not completed returns with the storage unchanged.
  A write for a completed session, on a storage whose ledger can be read, returns and
  leaves as ledger the first 5 of the old entries and the new one, stably sorted by
  descending score: at most 5 entries, sorted by descending score. So after any sequence
  of writes, from a storage whose ledger can be read, the ledger has at most 5 entries
  sorted by descending score, provided it had before or one of the writes is for a
  completed session. The scores and numbers of questions are integers that a double
  holds exactly.
\<close>

theorem ledger_invariant:
  "(\<not> isCompleted state \<longrightarrow> saveHighScore state now localStorage = Returns localStorage)
   \<and> (\<forall>items. stored_ledger localStorage = Some items \<and> isCompleted state \<and> exact_counts state \<longrightarrow>
        (\<exists>localStorage'. saveHighScore state now localStorage = Returns localStorage'
           \<and> stored_ledger localStorage' =
                Some (take 5 (sort_key (\<lambda>v. - score_key v) (items @ [newScore state now])))
           \<and> ledger_ok localStorage'))
   \<and> (stored_ledger localStorage \<noteq> None
        \<and> (\<forall>w \<in> set writes. exact_counts (fst w))
        \<and> (ledger_ok localStorage \<or> (\<exists>w \<in> set writes. isCompleted (fst w))) \<longrightarrow>
        (\<exists>localStorage'. save_all writes localStorage = Some localStorage' \<and> ledger_ok localStorage'))"
proof (intro conjI impI allI)
  assume "\<not> isCompleted state"
  then show "saveHighScore state now localStorage = Returns localStorage"
    by (rule saveHighScore_not_completed)
next
  fix items
  assume a: "stored_ledger localStorage = Some items \<and> isCompleted state \<and> exact_counts state"
  then obtain localStorage' where step: "saveHighScore state now localStorage = Returns localStorage'"
    and read: "stored_ledger localStorage' =
                 Some (take 5 (sort_key (\<lambda>v. - score_key v) (items @ [newScore state now])))"
    using saveHighScore_stored [of state localStorage items now] by blast
  from read have "ledger_ok localStorage'"
    by (simp add: ledger_ok_def top_scores_in_order)
  with step read show "\<exists>localStorage'. saveHighScore state now localStorage = Returns localStorage'
           \<and> stored_ledger localStorage' =
                Some (take 5 (sort_key (\<lambda>v. - score_key v) (items @ [newScore state now])))
           \<and> ledger_ok localStorage'"
    by blast
next
  assume a: "stored_ledger localStorage \<noteq> None
        \<and> (\<forall>w \<in> set writes. exact_counts (fst w))
        \<and> (ledger_ok localStorage \<or> (\<exists>w \<in> set writes. isCompleted (fst w)))"
  then obtain items where items: "stored_ledger localStorage = Some items" by auto
  with a have "ledger_in_order items \<or> (\<exists>w \<in> set writes. isCompleted (fst w))"
    by (auto simp: ledger_ok_def)
  moreover from a have "\<forall>w \<in> set writes. exact_counts (fst w)" by blast
  ultimately show "\<exists>localStorage'. save_all writes localStorage = Some localStorage'
                     \<and> ledger_ok localStorage'"
    using items by (blast intro: save_all_invariant)
qed

theorem ledger_invariant_witness:
  "stored_ledger crowded_storage =
     Some [sample_entry 0 ''a'', sample_entry 7 ''b'', sample_entry 1 ''c'',
           sample_entry 7 ''d'', sample_entry (- 2) ''e'', sample_entry 4 ''f'']
   \<and> \<not> ledger_ok crowded_storage
   \<and> isCompleted finished_state \<and> exact_counts finished_state \<and> score finished_state = 1
   \<and> \<not> isCompleted answered_state \<and> exact_counts answered_state
   \<and> saveHighScore answered_state sample_now crowded_storage = Returns crowded_storage
   \<and> (\<exists>localStorage'. saveHighScore finished_state sample_now crowded_storage = Returns localStorage'
         \<and> stored_ledger localStorage' =
              Some [sample_entry 7 ''b'', sample_entry 7 ''d'', sample_entry 4 ''f'',
                    sample_entry 1 ''c'', newScore finished_state sample_now]
         \<and> ledger_ok localStorage')
   \<and> (\<exists>localStorage'. save_all [(answered_state, sample_now), (finished_state, sample_now),
                                   (answered_state, sample_now)] crowded_storage = Some localStorage'
         \<and> ledger_ok localStorage')"
proof -
  have read: "stored_ledger crowded_storage =
     Some [sample_entry 0 ''a'', sample_entry 7 ''b'', sample_entry 1 ''c'',
           sample_entry 7 ''d'', sample_entry (- 2) ''e'', sample_entry 4 ''f'']"
    by code_simp
  have crowded: "\<not> ledger_ok crowded_storage"
    by code_simp
  have fin: "isCompleted finished_state" "exact_counts finished_state" "score finished_state = 1"
    by code_simp+
  have unfinished: "\<not> isCompleted answered_state" "exact_counts answered_state"
    by code_simp+
  have top: "take 5 (sort_key (\<lambda>v. - score_key v)
       ([sample_entry 0 ''a'', sample_entry 7 ''b'', sample_entry 1 ''c'',
         sample_entry 7 ''d'', sample_entry (- 2) ''e'', sample_entry 4 ''f'']
        @ [newScore finished_state sample_now]))
     = [sample_entry 7 ''b'', sample_entry 7 ''d'', sample_entry 4 ''f'',
        sample_entry 1 ''c'', newScore finished_state sample_now]"
    by code_simp
  have noop: "saveHighScore answered_state sample_now crowded_storage = Returns crowded_storage"
    using ledger_invariant [of answered_state sample_now crowded_storage "[]", THEN conjunct1]
      unfinished(1)
    by (rule mp)
  have "stored_ledger crowded_storage =
          Some [sample_entry 0 ''a'', sample_entry 7 ''b'', sample_entry 1 ''c'',
                sample_entry 7 ''d'', sample_entry (- 2) ''e'', sample_entry 4 ''f'']
        \<and> isCompleted finished_state \<and> exact_counts finished_state"
    using read fin(1,2) by (intro conjI)
  with ledger_invariant [of finished_state sample_now crowded_storage "[]",
         THEN conjunct2, THEN conjunct1, THEN spec,
         of "[sample_entry 0 ''a'', sample_entry 7 ''b'', sample_entry 1 ''c'',
              sample_entry 7 ''d'', sample_entry (- 2) ''e'', sample_entry 4 ''f'']"]
  have "\<exists>localStorage'. saveHighScore finished_state sample_now crowded_storage = Returns localStorage'
         \<and> stored_ledger localStorage' =
              Some (take 5 (sort_key (\<lambda>v. - score_key v)
                ([sample_entry 0 ''a'', sample_entry 7 ''b'', sample_entry 1 ''c'',
                  sample_entry 7 ''d'', sample_entry (- 2) ''e'', sample_entry 4 ''f'']
                 @ [newScore finished_state sample_now])))
         \<and> ledger_ok localStorage'"
    by (rule mp)
  then have one: "\<exists>localStorage'. saveHighScore finished_state sample_now crowded_storage = Returns localStorage'
         \<and> stored_ledger localStorage' =
              Some [sample_entry 7 ''b'', sample_entry 7 ''d'', sample_entry 4 ''f'',
                    sample_entry 1 ''c'', newScore finished_state sample_now]
         \<and> ledger_ok localStorage'"
    by (simp only: top)
  have readable: "stored_ledger crowded_storage \<noteq> None"
    by (simp only: read option.distinct not_False_eq_True)
  have exact: "\<forall>w \<in> set [(answered_state, sample_now), (finished_state, sample_now),
                           (answered_state, sample_now)]. exact_counts (fst w)"
    by (simp only: list.set ball_simps fst_conv fin unfinished simp_thms)
  have completed: "\<exists>w \<in> set [(answered_state, sample_now), (finished_state, sample_now),
                           (answered_state, sample_now)]. isCompleted (fst w)"
    by (simp only: list.set bex_simps fst_conv fin simp_thms)
  from readable exact completed
  have "stored_ledger crowded_storage \<noteq> None
        \<and> (\<forall>w \<in> set [(answered_state, sample_now), (finished_state, sample_now),
                           (answered_state, sample_now)]. exact_counts (fst w))
        \<and> (ledger_ok crowded_storage \<or>
             (\<exists>w \<in> set [(answered_state, sample_now), (finished_state, sample_now),
                           (answered_state, sample_now)]. isCompleted (fst w)))"
    by (intro conjI disjI2)
  with ledger_invariant [of finished_state sample_now crowded_storage
         "[(answered_state, sample_now), (finished_state, sample_now), (answered_state, sample_now)]",
         THEN conjunct2, THEN conjunct2]
  have many: "\<exists>localStorage'. save_all [(answered_state, sample_now), (finished_state, sample_now),
                                   (answered_state, sample_now)] crowded_storage = Some localStorage'
         \<and> ledger_ok localStorage'"
    by (rule mp)
  from read crowded fin unfinished noop one many show ?thesis
    by (intro conjI)
qed

text \<open>
  C3, as stated, fails: with the text \<open>{\<close> stored under the key, which is not JSON,
  \<open>getHighScores\<close> does not return the empty list; it throws the \<^verbatim>\<open>SyntaxError\<close> of
  \<^verbatim>\<open>JSON.parse\<close>.
\<close>

theorem corrupt_ledger_counterexample:
  "getHighScores (empty_storage(ledger_key \<mapsto> ''{'')) = Inl (SyntaxError ''JSON.parse'')
   \<and> getHighScores (empty_storage(ledger_key \<mapsto> ''{'')) \<noteq> Inr (JArray [])"
  by (simp add: getHighScores_def JSON_parse_def skip_ws_def is_ws_def parse_value.simps)

text \<open>
  C3, amended. \<open>getHighScores\<close> returns the empty list when nothing is stored under the
  key or the stored text is empty. For any other stored text it does what \<^verbatim>\<open>JSON.parse\<close>
  does with it: it returns the parsed value, or throws the \<^verbatim>\<open>SyntaxError\<close> when the text
  is not JSON, and it throws in no other case. For a text that \<^verbatim>\<open>JSON.stringify\<close> has
  written, as \<open>saveHighScore\<close> stores it, it returns the tree of the value written, which
  stands for that value when the value is in the model.
\<close>

theorem getHighScores_outcome:
  "(localStorage ledger_key = None \<or> localStorage ledger_key = Some [] \<longrightarrow>
      getHighScores localStorage = Inr (JArray []))
   \<and> (\<forall>saved. localStorage ledger_key = Some saved \<and> saved \<noteq> [] \<longrightarrow>
         getHighScores localStorage = JSON_parse saved)
   \<and> (isl (getHighScores localStorage) \<longleftrightarrow>
        (\<exists>saved. localStorage ledger_key = Some saved \<and> saved \<noteq> [] \<and> isl (JSON_parse saved)))
   \<and> getHighScores (localStorage(ledger_key \<mapsto> JSON_stringify v)) = Inr (tree_of v)
   \<and> (in_model v \<longrightarrow> value_of (tree_of v) = Some v)"
proof -
  have "getHighScores (localStorage(ledger_key \<mapsto> JSON_stringify v)) = Inr (tree_of v)"
    by (rule getHighScores_written)
  moreover have "in_model v \<longrightarrow> value_of (tree_of v) = Some v"
    by (simp add: value_of_tree_of)
  moreover have "localStorage ledger_key = None \<or> localStorage ledger_key = Some [] \<longrightarrow>
      getHighScores localStorage = Inr (JArray [])"
    by (auto simp: getHighScores_def)
  moreover have "\<forall>saved. localStorage ledger_key = Some saved \<and> saved \<noteq> [] \<longrightarrow>
         getHighScores localStorage = JSON_parse saved"
    by (auto simp: getHighScores_def)
  moreover have "isl (getHighScores localStorage) \<longleftrightarrow>
        (\<exists>saved. localStorage ledger_key = Some saved \<and> saved \<noteq> [] \<and> isl (JSON_parse saved))"
    by (auto simp: getHighScores_def split: option.splits)
  ultimately show ?thesis by blast
qed

theorem getHighScores_outcome_witness:
  "empty_storage ledger_key = None \<and> getHighScores empty_storage = Inr (JArray [])
   \<and> corrupt_storage ledger_key = Some ''{'' \<and> getHighScores corrupt_storage = JSON_parse ''{''"
proof -
  have none: "empty_storage ledger_key = None" by (simp add: empty_storage_def)
  have some: "corrupt_storage ledger_key = Some ''{''" by (simp add: corrupt_storage_def)
  show ?thesis
    using none some getHighScores_outcome [of empty_storage] getHighScores_outcome [of corrupt_storage]
    by simp
qed

end
